theory Spec2Isabelle
  imports Complex_Main "HOL-Library.Char_ord" "HOL-Library.List_Lexorder"
    "HOL-Library.Product_Lexorder"
begin

section \<open>Hit tables of \<^verbatim>\<open>circmimi/miranda.py\<close>\<close>

text \<open>
  A pandas data frame is a list of rows, in row order; the row label of a frame with the
  default index is the position of the row. A row of the frame built by
  \<^verbatim>\<open>get_binding_sites\<close> has the fourteen columns of \<^verbatim>\<open>Miranda.RESULT_TITLE\<close>.
  The four float columns are reals: nothing below does arithmetic on them, only
  \<^verbatim>\<open>max\<close> compares scores. Every stage of \<^verbatim>\<open>MirandaUtils\<close> that appends a
  column extends the row type by that column. A column that a left merge fills is an
  option: \<open>None\<close> is the NaN pandas writes where the right frame has no matching key.
\<close>

record hit =
  query_id :: string
  reference_id :: string
  score :: real
  energy :: real
  query_start :: int
  query_end :: int
  ref_start :: int
  ref_end :: int
  aln_length :: int
  identity :: real
  similarity :: real
  aln_mirna :: string
  aln_map :: string
  aln_utr :: string

record hit_len = hit +
  total_len :: "int option"

record hit_cb = hit_len +
  cross_boundary :: int

subsection \<open>Exceptions\<close>

text \<open>
  An exception is a value: a function that can raise returns \<open>py_error + 'a\<close>. The model
  covers the runs in which the calls of the operating system succeed (the directory is
  created, the files open).
\<close>

datatype py_error =
  IndexError | KeyError | ValueError | TypeError | OverflowError | UnboundLocalError | RuntimeError

subsection \<open>Left merge\<close>

text \<open>
  \<^verbatim>\<open>left.merge(right, left_on=..., right_on=..., how='left')\<close>: every left row, in the
  order of the left frame, once with each right row of the same key (in the order of the
  right frame), and once with no right row when no key matches.
\<close>

definition merge_left :: "'a list \<Rightarrow> ('a \<Rightarrow> 'k) \<Rightarrow> 'b list \<Rightarrow> ('b \<Rightarrow> 'k) \<Rightarrow> ('a \<times> 'b option) list" where
  "merge_left left lkey right rkey =
     concat (map (\<lambda>l. case filter (\<lambda>r. rkey r = lkey l) right of
                           [] \<Rightarrow> [(l, None)]
                         | ms \<Rightarrow> map (\<lambda>r. (l, Some r)) ms) left)"

subsection \<open>\<^verbatim>\<open>MirandaUtils.append_exons_len\<close>\<close>

text \<open>
  \<^verbatim>\<open>exons_len_df\<close> has the columns \<^verbatim>\<open>exons_id\<close> and \<^verbatim>\<open>total_len\<close>: a list of
  pairs. The merge is a left merge and the function has no other statement: a hit whose
  \<^verbatim>\<open>reference_id\<close> is no \<^verbatim>\<open>exons_id\<close> keeps its row, with \<^verbatim>\<open>total_len\<close> NaN.
\<close>

definition append_exons_len :: "hit list \<Rightarrow> (string \<times> int) list \<Rightarrow> hit_len list" where
  "append_exons_len miranda_df exons_len_df =
     map (\<lambda>(h, m). hit.extend h (hit_len.fields (map_option snd m)))
       (merge_left miranda_df reference_id exons_len_df fst)"

subsection \<open>\<^verbatim>\<open>MirandaUtils.remove_redundant_result\<close>\<close>

text \<open>
  The coordinates and lengths of a hit are written here as the integers they denote. In
  the frame they are machine numbers: \<^verbatim>\<open>ref_start\<close> and \<^verbatim>\<open>ref_end\<close> are int64,
  and \<^verbatim>\<open>total_len\<close> is int64 when every hit has a length and float64 as soon as one
  length is NaN. Up to \<open>2 ^ 52\<close> in absolute value both hold every integer, and the sum
  \<^verbatim>\<open>ref_end + total_len\<close>, exactly, so that on such frames (\<open>exact_range\<close> below) the
  comparisons and the sum of the code are those of the integers. Beyond that bound the
  result of the code depends on the rounding of float64 and on how the version of
  pandas at hand compares keys of different dtypes: such frames are outside the model,
  and every general statement about the filter carries the bound.

  \<^verbatim>\<open>miranda_df['ref_start'] <= miranda_df['total_len']\<close>: a comparison with NaN is
  false.
\<close>

definition ref_start_le_total_len :: "'z hit_len_scheme \<Rightarrow> bool" where
  "ref_start_le_total_len r = (case total_len r of None \<Rightarrow> False | Some l \<Rightarrow> ref_start r \<le> l)"

text \<open>
  \<^verbatim>\<open>_get_extended_ref_end\<close>: the row \<^verbatim>\<open>(query_id, reference_id, ext_ref_end)\<close> with
  \<^verbatim>\<open>ext_ref_end = ref_end + total_len\<close> (NaN when \<^verbatim>\<open>total_len\<close> is).
\<close>

definition get_extended_ref_end :: "'z hit_len_scheme \<Rightarrow> string \<times> string \<times> int option" where
  "get_extended_ref_end s = (query_id s, reference_id s, map_option (\<lambda>l. ref_end s + l) (total_len s))"

text \<open>
  The frame is paired with its row labels (\<open>enumerate 0\<close>), which the boolean mask keeps.
  The rows with \<^verbatim>\<open>ref_start == 1\<close> are mapped to their extended rows;
  \<^verbatim>\<open>reset_index()\<close> turns the labels of these rows into the column \<^verbatim>\<open>index\<close>; the
  inner merge pairs each of them with every row of \<^verbatim>\<open>filtered_df\<close> that has the same
  \<^verbatim>\<open>query_id\<close> and \<^verbatim>\<open>reference_id\<close> and whose \<^verbatim>\<open>ref_end\<close> is the
  \<^verbatim>\<open>ext_ref_end\<close>; \<^verbatim>\<open>.loc[:, 'index']\<close> reads the column \<^verbatim>\<open>index\<close> of the merged
  frame, that is the label of the left row of each pair, the row with \<^verbatim>\<open>ref_start == 1\<close>.
  \<^verbatim>\<open>drop\<close> removes the rows with these labels and \<^verbatim>\<open>reset_index(drop=True)\<close>
  forgets the labels.

  When no row has \<^verbatim>\<open>ref_start == 1\<close>, \<^verbatim>\<open>apply\<close> gets a frame without rows. On such a
  frame \<^verbatim>\<open>DataFrame.apply(..., axis=1)\<close> cannot call the function on a row: it returns a
  copy of the frame, with the columns of \<^verbatim>\<open>filtered_df\<close> and without a column
  \<^verbatim>\<open>ext_ref_end\<close>, and \<^verbatim>\<open>merge\<close> raises KeyError for the key \<^verbatim>\<open>ext_ref_end\<close>.
\<close>

definition remove_redundant_result :: "'z hit_len_scheme list \<Rightarrow> py_error + 'z hit_len_scheme list" where
  "remove_redundant_result miranda_df =
     (let filtered_df = filter (\<lambda>(i, r). ref_start_le_total_len r) (enumerate 0 miranda_df);
          start_df = filter (\<lambda>(i, r). ref_start r = 1) filtered_df
      in if start_df = [] then Inl KeyError
         else
           (let ext_df = map (\<lambda>(i, r). (i, get_extended_ref_end r)) start_df;
                dropped_index =
                  concat (map (\<lambda>(i, q, rf, e).
                            map (\<lambda>jb. i)
                              (filter (\<lambda>(j, b). q = query_id b \<and> rf = reference_id b
                                                \<and> e = Some (ref_end b))
                                 filtered_df))
                          ext_df)
            in Inr (map snd (filter (\<lambda>(i, r). i \<notin> set dropped_index) filtered_df))))"

subsection \<open>\<^verbatim>\<open>MirandaUtils._is_cross_boundary\<close> and \<^verbatim>\<open>append_cross_boundary\<close>\<close>

definition is_cross_boundary :: "'z hit_len_scheme \<Rightarrow> int" where
  "is_cross_boundary s =
     (case total_len s of
        None \<Rightarrow> 0
      | Some exons_len \<Rightarrow> if ref_start s \<le> exons_len \<and> exons_len < ref_end s then 1 else 0)"

definition append_cross_boundary :: "hit_len list \<Rightarrow> hit_cb list" where
  "append_cross_boundary miranda_df_with_len =
     map (\<lambda>r. hit_len.extend r (hit_cb.fields (is_cross_boundary r))) miranda_df_with_len"


subsection \<open>\<^verbatim>\<open>MirandaUtils.append_ev_id\<close>\<close>

record hit_ev = hit_cb +
  ev_id :: "string option"

text \<open>
  \<^verbatim>\<open>exons_ev_id_df\<close> has the columns \<^verbatim>\<open>exons_id\<close> and \<^verbatim>\<open>ev_id\<close>. After the left
  merge the frame is sorted by \<^verbatim>\<open>ev_id\<close> and \<^verbatim>\<open>query_id\<close> ascending and by
  \<^verbatim>\<open>score\<close> descending; pandas sorts NaN last. The sort key of a row puts a row without
  \<^verbatim>\<open>ev_id\<close> after every row with one.
\<close>

definition ev_sort_key :: "'z hit_ev_scheme \<Rightarrow> (nat \<times> string) \<times> string \<times> real" where
  "ev_sort_key r =
     ((case ev_id r of None \<Rightarrow> (1, []) | Some e \<Rightarrow> (0, e)), query_id r, - score r)"

definition append_ev_id :: "hit_cb list \<Rightarrow> (string \<times> string) list \<Rightarrow> hit_ev list" where
  "append_ev_id df exons_ev_id_df =
     sort_key ev_sort_key
       (map (\<lambda>(r, m). hit_cb.extend r (hit_ev.fields (map_option snd m)))
          (merge_left df reference_id exons_ev_id_df fst))"

subsection \<open>\<^verbatim>\<open>MirandaUtils.append_merged_aln\<close> and \<^verbatim>\<open>generate_aln_id\<close>\<close>

record hit_aln = hit_ev +
  aln :: string

record hit_aln_id = hit_aln +
  aln_id :: "nat option"

text \<open>
  \<^verbatim>\<open>reduce(lambda c1, c2: c1.add(c2), ...)\<close> over the three alignment columns: the
  strings of a row, concatenated from the left.
\<close>

definition append_merged_aln :: "hit_ev list \<Rightarrow> hit_aln list" where
  "append_merged_aln miranda_df =
     map (\<lambda>r. hit_ev.extend r (hit_aln.fields ((aln_mirna r @ aln_map r) @ aln_utr r))) miranda_df"

text \<open>\<^verbatim>\<open>Series.unique()\<close>: the distinct values, in the order of their first appearance.\<close>

fun unique_from :: "'a list \<Rightarrow> 'a list \<Rightarrow> 'a list" where
  "unique_from seen [] = seen"
| "unique_from seen (x # xs) =
     (if x \<in> set seen then unique_from seen xs else unique_from (seen @ [x]) xs)"

definition unique :: "'a list \<Rightarrow> 'a list" where
  "unique xs = unique_from [] xs"

text \<open>
  \<^verbatim>\<open>all_uniq_alns.reset_index()\<close> has the columns \<^verbatim>\<open>index\<close> (the position in the
  list of distinct values) and \<^verbatim>\<open>aln\<close>; the left merge on \<^verbatim>\<open>aln\<close> gives every hit
  the \<^verbatim>\<open>index\<close> of its \<^verbatim>\<open>aln\<close>, renamed \<^verbatim>\<open>aln_id\<close>.
\<close>

definition generate_aln_id :: "hit_aln list \<Rightarrow> hit_aln_id list" where
  "generate_aln_id miranda_df_with_aln =
     (let all_uniq_alns = unique (map aln miranda_df_with_aln)
      in map (\<lambda>(r, m). hit_aln.extend r (hit_aln_id.fields (map_option fst m)))
           (merge_left miranda_df_with_aln aln (enumerate 0 all_uniq_alns) snd))"

subsection \<open>\<^verbatim>\<open>MirandaUtils.get_grouped_results\<close>\<close>

text \<open>
  The columns of the grouped frame are \<^verbatim>\<open>ev_id\<close>, \<^verbatim>\<open>mirna\<close>, \<^verbatim>\<open>max_score\<close>,
  \<^verbatim>\<open>count\<close> and \<^verbatim>\<open>cross_boundary\<close>.
\<close>

record summary_row =
  grp_ev_id :: string
  mirna :: string
  max_score :: real
  count :: nat
  grp_cross_boundary :: int

text \<open>
  \<^verbatim>\<open>groupby(['ev_id', 'query_id'])\<close> leaves out the rows with a NaN key and orders the
  groups by their key; \<^verbatim>\<open>max\<close> is the greatest value of the group, \<^verbatim>\<open>nunique\<close> the
  number of its distinct values, NaN not counted.
\<close>

definition group_keys :: "'z hit_aln_id_scheme list \<Rightarrow> (string \<times> string) list" where
  "group_keys df =
     sort (remdups (List.map_filter (\<lambda>r. map_option (\<lambda>e. (e, query_id r)) (ev_id r)) df))"

definition group_rows :: "'z hit_aln_id_scheme list \<Rightarrow> string \<times> string \<Rightarrow> 'z hit_aln_id_scheme list" where
  "group_rows df k = filter (\<lambda>r. ev_id r = Some (fst k) \<and> query_id r = snd k) df"

definition get_grouped_results :: "'z hit_aln_id_scheme list \<Rightarrow> summary_row list" where
  "get_grouped_results miranda_df_with_aln_id =
     map (\<lambda>k. let g = group_rows miranda_df_with_aln_id k in
            \<lparr>grp_ev_id = fst k, mirna = snd k,
             max_score = Max (set (map score g)),
             count = card (set (List.map_filter aln_id g)),
             grp_cross_boundary = Max (set (map cross_boundary g))\<rparr>)
       (group_keys miranda_df_with_aln_id)"

section \<open>The class \<^verbatim>\<open>Miranda\<close>\<close>

definition TAB :: char where
  "TAB = CHR 0x09"

definition NEWLINE :: char where
  "NEWLINE = CHR 0x0A"

subsection \<open>\<^verbatim>\<open>Miranda._get_value\<close> and \<^verbatim>\<open>Miranda.parse_result\<close>\<close>

text \<open>\<^verbatim>\<open>s.split(sep)\<close> for a separator of one character: never an empty list.\<close>

fun split_on :: "char \<Rightarrow> string \<Rightarrow> string list" where
  "split_on sep [] = [[]]"
| "split_on sep (c # cs) =
     (if c = sep then [] # split_on sep cs
      else (case split_on sep cs of w # ws \<Rightarrow> (c # w) # ws | [] \<Rightarrow> [[c]]))"

text \<open>
  \<^verbatim>\<open>[kv.split('=')[1] for kv in res_line.split('\t')]\<close>: the second piece of every
  field; a field without \<^verbatim>\<open>=\<close> has one piece only and \<^verbatim>\<open>[1]\<close> raises IndexError.
\<close>

fun get_values :: "string list \<Rightarrow> py_error + string list" where
  "get_values [] = Inr []"
| "get_values (kv # kvs) =
     (case split_on (CHR ''='') kv of
        k # v # ws \<Rightarrow> (case get_values kvs of Inl e \<Rightarrow> Inl e | Inr vs \<Rightarrow> Inr (v # vs))
      | _ \<Rightarrow> Inl IndexError)"

definition get_value :: "string \<Rightarrow> py_error + string list" where
  "get_value res_line = get_values (split_on TAB res_line)"

text \<open>
  \<^verbatim>\<open>re.finditer\<close> with the pattern \<^verbatim>\<open>^//hit_info\t(.*)\<close> and the flag \<^verbatim>\<open>re.M\<close>,
  as a scan of the text from the left. \<open>bol\<close> says that the position is the start of the
  text or follows a newline, where \<^verbatim>\<open>^\<close> matches. A match takes the marker and, for
  the group, the characters up to the next newline (which \<^verbatim>\<open>.\<close> does not match); the
  search goes on after the match. The result is the list of the groups.
\<close>

definition hit_info :: string where
  "hit_info = ''//hit_info'' @ [TAB]"

function finditer :: "bool \<Rightarrow> string \<Rightarrow> string list" where
  "finditer bol [] = []"
| "finditer bol (c # cs) =
     (if bol \<and> take (length hit_info) (c # cs) = hit_info
      then takeWhile (\<lambda>x. x \<noteq> NEWLINE) (drop (length hit_info) (c # cs))
             # finditer False (dropWhile (\<lambda>x. x \<noteq> NEWLINE) (drop (length hit_info) (c # cs)))
      else finditer (c = NEWLINE) cs)"
  by pat_completeness auto
termination
  by (relation "measure (\<lambda>(bol, s). length s)")
     (auto simp: hit_info_def intro!: le_imp_less_Suc order_trans [OF length_dropWhile_le])

text \<open>
  \<^verbatim>\<open>parse_result\<close> is a generator, and a generator that raises is finished: asked
  again it yields nothing more. The run of a generator to its end is the list of the rows
  it yields and the exception that ends it, if one does. \<open>generator\<close> runs a list of
  steps, each the row to yield or the exception to raise, up to the first exception.
\<close>

fun generator :: "(py_error + 'a) list \<Rightarrow> 'a list \<times> py_error option" where
  "generator [] = ([], None)"
| "generator (Inl e # steps) = ([], Some e)"
| "generator (Inr x # steps) = (case generator steps of (xs, e) \<Rightarrow> (x # xs, e))"

definition parse_result :: "string \<Rightarrow> string list list \<times> py_error option" where
  "parse_result raw_result = generator (map get_value (finditer True raw_result))"

subsection \<open>The typed conversion of \<^verbatim>\<open>get_binding_sites\<close>\<close>






















subsection \<open>\<^verbatim>\<open>Miranda._split_file\<close>\<close>

text \<open>
  The sequence file is the list of its lines. The state of the loop: the partition
  \<^verbatim>\<open>tmp_f\<close> is bound to (as its position in \<^verbatim>\<open>tmp_files\<close>; unbound before the first
  header line), the position of \<^verbatim>\<open>cycle(tmp_files)\<close>, and the lines written to every
  partition so far. \<^verbatim>\<open>next\<close> on the cycle of an empty list raises StopIteration, which
  leaves the generator of the context manager as a RuntimeError; writing with \<^verbatim>\<open>tmp_f\<close>
  unbound raises UnboundLocalError.
\<close>

record split_state =
  tmp_f :: "nat option"
  tmp_files_iter :: nat
  tmp_files :: "string list list"

definition startswith_gt :: "string \<Rightarrow> bool" where
  "startswith_gt line = (case line of [] \<Rightarrow> False | c # cs \<Rightarrow> c = CHR ''>'')"

definition write_line :: "nat \<Rightarrow> string \<Rightarrow> string list list \<Rightarrow> string list list" where
  "write_line k line fs = fs[k := fs ! k @ [line]]"

fun split_loop :: "nat \<Rightarrow> split_state \<Rightarrow> string list \<Rightarrow> py_error + split_state" where
  "split_loop n st [] = Inr st"
| "split_loop n st (line # seq_in) =
     (if startswith_gt line then
        (if n = 0 then Inl RuntimeError
         else split_loop n
                \<lparr>tmp_f = Some (tmp_files_iter st),
                 tmp_files_iter = (tmp_files_iter st + 1) mod n,
                 tmp_files = write_line (tmp_files_iter st) line (tmp_files st)\<rparr> seq_in)
      else (case tmp_f st of
              None \<Rightarrow> Inl UnboundLocalError
            | Some k \<Rightarrow> split_loop n (st\<lparr>tmp_files := write_line k line (tmp_files st)\<rparr>) seq_in))"

text \<open>
  The contents of the partitions, in the order of \<^verbatim>\<open>file_paths\<close>:
  \<^verbatim>\<open>range(1, num + 1)\<close> has \<open>nat num\<close> elements.
\<close>

definition split_file :: "string list \<Rightarrow> int \<Rightarrow> py_error + string list list" where
  "split_file seq_file num =
     (case split_loop (nat num)
             \<lparr>tmp_f = None, tmp_files_iter = 0, tmp_files = replicate (nat num) []\<rparr> seq_file of
        Inl e \<Rightarrow> Inl e
      | Inr st \<Rightarrow> Inr (tmp_files st))"

text \<open>The decimal text of a number, as \<^verbatim>\<open>format\<close> writes it.\<close>

fun show_nat :: "nat \<Rightarrow> string" where
  "show_nat n =
     (if n < 10 then [''0123456789'' ! n]
      else show_nat (n div 10) @ [''0123456789'' ! (n mod 10)])"

definition path_join :: "string \<Rightarrow> string \<Rightarrow> string" where
  "path_join a b =
     (if b \<noteq> [] \<and> hd b = CHR ''/'' then b
      else if a = [] \<or> last a = CHR ''/'' then a @ b
      else a @ ''/'' @ b)"

definition file_paths :: "string \<Rightarrow> int \<Rightarrow> string list" where
  "file_paths tmp_dir num =
     map (\<lambda>i. path_join tmp_dir (''seq_file.part'' @ show_nat i @ ''.fa'')) [1 ..< nat num + 1]"

subsection \<open>\<^verbatim>\<open>Miranda._generate_cmd\<close> and \<^verbatim>\<open>Miranda.run\<close>\<close>

record miranda =
  ref_file :: string
  work_dir :: string
  bin_path :: string
  options :: "string list"

definition generate_cmd :: "miranda \<Rightarrow> string \<Rightarrow> string option \<Rightarrow> string list" where
  "generate_cmd self seq_file out_file =
     [bin_path self, ref_file self, seq_file] @ options self @
     (case out_file of None \<Rightarrow> [] | Some f \<Rightarrow> if f = [] then [] else [''-out'', f])"

text \<open>
  What a call of \<^verbatim>\<open>run\<close> does and returns: its value (\<open>None\<close> is Python's
  \<^verbatim>\<open>None\<close>), the command lines of the processes it started, in order, and the
  directories it made. The aligner is a parameter, \<open>aligner\<close>: the text the binary
  writes (to its standard output, or to the file after \<^verbatim>\<open>-out\<close>) for a command line and
  the lines of the sequence file the command names. \<open>rand_id\<close> is what
  \<^verbatim>\<open>_rand_id()\<close> returned.
\<close>

record run_result =
  returned :: "string option"
  started :: "string list list"
  made_dirs :: "string list"

definition run ::
  "(string list \<Rightarrow> string list \<Rightarrow> string) \<Rightarrow> string \<Rightarrow> miranda \<Rightarrow> string \<Rightarrow> string list \<Rightarrow> int
     \<Rightarrow> py_error + run_result" where
  "run aligner rand_id self seq_file seq_lines num_proc =
     (if num_proc = 1 then
        (let cmd = generate_cmd self seq_file None
         in Inr \<lparr>returned = Some (aligner cmd seq_lines), started = [cmd], made_dirs = []\<rparr>)
      else if num_proc > 1 then
        (let tmp_dir = path_join (work_dir self) (''miranda_tmp_'' @ rand_id) in
         case split_file seq_lines num_proc of
           Inl e \<Rightarrow> Inl e
         | Inr parts \<Rightarrow>
             (let tmp_files = file_paths tmp_dir num_proc;
                  out_files = map (\<lambda>tmp_f. tmp_f @ ''.result'') tmp_files;
                  cmds = map2 (\<lambda>tmp_f out_f. generate_cmd self tmp_f (Some out_f)) tmp_files out_files
              in Inr \<lparr>returned = Some (concat (map2 aligner cmds parts)), started = cmds,
                      made_dirs = [tmp_dir]\<rparr>))
      else Inr \<lparr>returned = None, started = [], made_dirs = []\<rparr>)"


section \<open>Notions of the properties\<close>

subsection \<open>RedundancyFilter\<close>

text \<open>
  The frames on which int64 and float64 compute as the integers do: every coordinate and
  every length is at most \<open>2 ^ 52\<close> in absolute value.
\<close>

definition exact_range :: "'z hit_len_scheme list \<Rightarrow> bool" where
  "exact_range df =
     list_all (\<lambda>r. \<bar>ref_start r\<bar> \<le> 2 ^ 52 \<and> \<bar>ref_end r\<bar> \<le> 2 ^ 52
                 \<and> (case total_len r of None \<Rightarrow> True | Some l \<Rightarrow> \<bar>l\<bar> \<le> 2 ^ 52)) df"

text \<open>The frame has a hit with \<^verbatim>\<open>ref_start == 1\<close> that passes the first step.\<close>

definition has_start_hit :: "'z hit_len_scheme list \<Rightarrow> bool" where
  "has_start_hit df = list_ex (\<lambda>r. ref_start_le_total_len r \<and> ref_start r = 1) df"

text \<open>
  \<open>has_extended df a\<close>: the frame has a hit that passes the first step
  (\<^verbatim>\<open>ref_start <= total_len\<close>), has the \<^verbatim>\<open>query_id\<close> and \<^verbatim>\<open>reference_id\<close> of
  \<open>a\<close>, and ends at \<^verbatim>\<open>ref_end + total_len\<close> of \<open>a\<close>.
\<close>

definition has_extended :: "'z hit_len_scheme list \<Rightarrow> 'z hit_len_scheme \<Rightarrow> bool" where
  "has_extended df a =
     list_ex (\<lambda>b. ref_start_le_total_len b \<and> query_id a = query_id b \<and> reference_id a = reference_id b
                 \<and> map_option (\<lambda>l. ref_end a + l) (total_len a) = Some (ref_end b)) df"

text \<open>
  The filter in the words of the specification (4.2): step 1 discards every hit with
  \<^verbatim>\<open>ref_start > total_len\<close>; then every remaining hit that is the extended counterpart
  of a remaining hit with \<^verbatim>\<open>ref_start == 1\<close> is removed, and the hits with
  \<^verbatim>\<open>ref_start == 1\<close> stay.
\<close>

definition is_extended_of :: "'z hit_len_scheme list \<Rightarrow> 'z hit_len_scheme \<Rightarrow> bool" where
  "is_extended_of df b =
     list_ex (\<lambda>a. ref_start_le_total_len a \<and> ref_start a = 1 \<and> query_id a = query_id b
                 \<and> reference_id a = reference_id b
                 \<and> map_option (\<lambda>l. ref_end a + l) (total_len a) = Some (ref_end b)) df"

definition redundancy_filter_spec :: "'z hit_len_scheme list \<Rightarrow> 'z hit_len_scheme list" where
  "redundancy_filter_spec df =
     filter (\<lambda>b. ref_start_le_total_len b \<and> \<not> is_extended_of df b) df"

text \<open>
  A hit for the examples: the columns the filter reads are the arguments, the other
  columns are fixed.
\<close>

definition example_hit :: "string \<Rightarrow> string \<Rightarrow> int \<Rightarrow> int \<Rightarrow> hit" where
  "example_hit q r s e =
     \<lparr>query_id = q, reference_id = r, score = 150, energy = -20, query_start = 1,
      query_end = 20, ref_start = s, ref_end = e, aln_length = 20, identity = 80,
      similarity = 90, aln_mirna = ''ACGU'', aln_map = ''||||'', aln_utr = ''UGCA''\<rparr>"

definition example_hit_len :: "string \<Rightarrow> string \<Rightarrow> int \<Rightarrow> int \<Rightarrow> int option \<Rightarrow> hit_len" where
  "example_hit_len q r s e l = hit.extend (example_hit q r s e) (hit_len.fields l)"


subsection \<open>AlignmentClusterer\<close>

text \<open>The position of the first occurrence of a value in a list.\<close>

definition first_index :: "'a list \<Rightarrow> 'a \<Rightarrow> nat" where
  "first_index xs x = length (takeWhile (\<lambda>y. y \<noteq> x) xs)"

text \<open>The alignment signature of a hit: its three alignment strings, concatenated.\<close>

definition signature :: "'z hit_scheme \<Rightarrow> string" where
  "signature r = (aln_mirna r @ aln_map r) @ aln_utr r"


definition aln_triple :: "'z hit_scheme \<Rightarrow> string \<times> string \<times> string" where
  "aln_triple r = (aln_mirna r, aln_map r, aln_utr r)"

text \<open>The three alignment strings of a hit have one length (data model of the specification).\<close>

definition equal_length_aln :: "'z hit_scheme \<Rightarrow> bool" where
  "equal_length_aln r =
     (length (aln_mirna r) = length (aln_map r) \<and> length (aln_map r) = length (aln_utr r))"

text \<open>
  The number of distinct signatures in the frame before the first occurrence of \<open>s\<close>.
\<close>

definition seen_before :: "string list \<Rightarrow> string \<Rightarrow> nat" where
  "seen_before sigs s = card (set (take (first_index sigs s) sigs))"

text \<open>A hit for the examples, with its identifiers and alignment strings as arguments.\<close>

definition example_hit_ev :: "string \<Rightarrow> string \<Rightarrow> string \<Rightarrow> string \<Rightarrow> string \<Rightarrow> hit_ev" where
  "example_hit_ev q r a m u =
     \<lparr>query_id = q, reference_id = r, score = 150, energy = -20, query_start = 1,
      query_end = 20, ref_start = 5, ref_end = 25, aln_length = 20, identity = 80,
      similarity = 90, aln_mirna = a, aln_map = m, aln_utr = u, total_len = Some 100,
      cross_boundary = 0, ev_id = Some ''E1''\<rparr>"

subsection \<open>Aggregator\<close>


subsection \<open>The consolidation pipeline\<close>

text \<open>
  Modelled from the spec: the caller of \<^verbatim>\<open>MirandaUtils\<close> (the class \<^verbatim>\<open>Circmimi\<close>) is not
  among the sources. The pipeline is the composition of the stages in the order of the
  data flow of the specification (section 2), which is the order in which
  \<^verbatim>\<open>MirandaUtils\<close> declares them; it returns the table of the clustered hits and the
  summary table.
\<close>

definition consolidate ::
  "hit list \<Rightarrow> (string \<times> int) list \<Rightarrow> (string \<times> string) list
     \<Rightarrow> py_error + hit_aln_id list \<times> summary_row list" where
  "consolidate miranda_df exons_len_df exons_ev_id_df =
     (case remove_redundant_result (append_exons_len miranda_df exons_len_df) of
        Inl e \<Rightarrow> Inl e
      | Inr filtered \<Rightarrow>
          (let classified = append_cross_boundary filtered;
               with_ev = append_ev_id classified exons_ev_id_df;
               clustered = generate_aln_id (append_merged_aln with_ev)
           in Inr (clustered, get_grouped_results clustered)))"

subsection \<open>Records of a sequence file\<close>

text \<open>
  The records of a sequence file: a record is a header line (starting with \<^verbatim>\<open>>\<close>)
  and the lines that follow it up to the next header line. \<open>is_record\<close> says that a
  list of lines is one record; the records of a file whose first line is a header are
  records, and a file is the concatenation of its records.
\<close>

function records :: "string list \<Rightarrow> string list list" where
  "records [] = []"
| "records (l # ls) =
     (l # takeWhile (\<lambda>x. \<not> startswith_gt x) ls) # records (dropWhile (\<lambda>x. \<not> startswith_gt x) ls)"
  by pat_completeness auto
termination
  by (relation "measure length") (auto intro!: le_imp_less_Suc length_dropWhile_le)

definition is_record :: "string list \<Rightarrow> bool" where
  "is_record r = (case r of [] \<Rightarrow> False
                  | l # ls \<Rightarrow> startswith_gt l \<and> list_all (\<lambda>x. \<not> startswith_gt x) ls)"

text \<open>
  Dealing records to \<open>n\<close> partitions in turn, from partition \<open>j\<close> on: what the loop of
  \<^verbatim>\<open>_split_file\<close> does to the partitions, record by record.
\<close>

fun deal :: "nat \<Rightarrow> nat \<Rightarrow> string list list \<Rightarrow> string list list \<Rightarrow> string list list" where
  "deal n j fs [] = fs"
| "deal n j fs (r # rs) = deal n ((j + 1) mod n) (fs[j := fs ! j @ r]) rs"

subsection \<open>Examples for run\<close>

text \<open>An aligner and a \<^verbatim>\<open>Miranda\<close> object for the examples.
\<close>

definition example_aligner :: "string list \<Rightarrow> string list \<Rightarrow> string" where
  "example_aligner cmd seq_lines = concat (map (\<lambda>l. ''//hit_info'' @ [TAB] @ l) seq_lines)"

definition example_miranda :: miranda where
  "example_miranda =
     \<lparr>ref_file = ''mir.fa'', work_dir = ''.'', bin_path = ''miranda'',
      options = [''-quiet'', ''-keyval'']\<rparr>"

subsection \<open>ResultParser\<close>






text \<open>A line that starts with the marker, and the groups of the marker lines of a list of lines.\<close>

definition is_hit_info :: "string \<Rightarrow> bool" where
  "is_hit_info l = (take (length hit_info) l = hit_info)"

definition hit_info_groups :: "string list \<Rightarrow> string list" where
  "hit_info_groups ls = map (drop (length hit_info)) (filter is_hit_info ls)"





declare show_nat.simps [simp del]


section \<open>BoundaryClassifier\<close>

lemma total_len_extend [simp]: "total_len (hit.extend h (hit_len.fields x)) = x"
  by (simp add: hit.defs hit_len.defs)

lemma cross_boundary_extend [simp]: "cross_boundary (hit_len.extend r (hit_cb.fields c)) = c"
  by (simp add: hit_len.defs hit_cb.defs)

lemma truncate_extend_cb [simp]: "hit_len.truncate (hit_len.extend r (hit_cb.fields c)) = r"
  by (simp add: hit_len.defs hit_cb.defs)

text \<open>
  C4. For a hit whose \<^verbatim>\<open>total_len\<close> is defined, \<^verbatim>\<open>_is_cross_boundary\<close> returns 1 when
  \<^verbatim>\<open>ref_start <= total_len\<close> and \<^verbatim>\<open>total_len < ref_end\<close>, and 0 otherwise;
  \<^verbatim>\<open>append_cross_boundary\<close> keeps every row and writes that value in its
  \<^verbatim>\<open>cross_boundary\<close> column. A hit with \<^verbatim>\<open>ref_start = 1\<close> and
  \<^verbatim>\<open>ref_end = total_len\<close> gets 0, a hit with \<^verbatim>\<open>ref_start = total_len\<close> and
  \<^verbatim>\<open>ref_end = total_len + 1\<close> gets 1.
\<close>

theorem cross_boundary_iff:
  fixes s :: hit_len and df :: "hit_len list"
  assumes "total_len s = Some l"
  shows "(is_cross_boundary s = 1) = (ref_start s \<le> l \<and> l < ref_end s)
       \<and> (is_cross_boundary s = 0) = (\<not> (ref_start s \<le> l \<and> l < ref_end s))
       \<and> (ref_start s = 1 \<and> ref_end s = l \<longrightarrow> is_cross_boundary s = 0)
       \<and> (ref_start s = l \<and> ref_end s = l + 1 \<longrightarrow> is_cross_boundary s = 1)
       \<and> map hit_len.truncate (append_cross_boundary df) = df
       \<and> map cross_boundary (append_cross_boundary df) = map is_cross_boundary df"
  using assms
  by (simp add: is_cross_boundary_def append_cross_boundary_def comp_def)

theorem cross_boundary_iff_witness:
  "total_len
     \<lparr>query_id = ''miR-1'', reference_id = ''R'', score = 150, energy = -20,
      query_start = 1, query_end = 20, ref_start = 100, ref_end = 101, aln_length = 20,
      identity = 80, similarity = 90, aln_mirna = ''ACGU'', aln_map = ''||||'',
      aln_utr = ''UGCA'', total_len = Some 100\<rparr> = Some 100
   \<and> is_cross_boundary
     \<lparr>query_id = ''miR-1'', reference_id = ''R'', score = 150, energy = -20,
      query_start = 1, query_end = 20, ref_start = 100, ref_end = 101, aln_length = 20,
      identity = 80, similarity = 90, aln_mirna = ''ACGU'', aln_map = ''||||'',
      aln_utr = ''UGCA'', total_len = Some 100\<rparr> = 1
   \<and> map cross_boundary (append_cross_boundary
       [\<lparr>query_id = ''miR-1'', reference_id = ''R'', score = 150, energy = -20,
         query_start = 1, query_end = 20, ref_start = 1, ref_end = 100, aln_length = 20,
         identity = 80, similarity = 90, aln_mirna = ''ACGU'', aln_map = ''||||'',
         aln_utr = ''UGCA'', total_len = Some 100\<rparr>]) = [0]"
  using cross_boundary_iff [of
     "\<lparr>query_id = ''miR-1'', reference_id = ''R'', score = 150, energy = -20,
      query_start = 1, query_end = 20, ref_start = 100, ref_end = 101, aln_length = 20,
      identity = 80, similarity = 90, aln_mirna = ''ACGU'', aln_map = ''||||'',
      aln_utr = ''UGCA'', total_len = Some 100\<rparr>" 100
     "[\<lparr>query_id = ''miR-1'', reference_id = ''R'', score = 150, energy = -20,
         query_start = 1, query_end = 20, ref_start = 1, ref_end = 100, aln_length = 20,
         identity = 80, similarity = 90, aln_mirna = ''ACGU'', aln_map = ''||||'',
         aln_utr = ''UGCA'', total_len = Some 100\<rparr>]"]
  by (simp add: is_cross_boundary_def)

section \<open>RedundancyFilter\<close>

lemma in_enumerate_unique:
  "(i, r) \<in> set (enumerate n xs) \<Longrightarrow> (i, r') \<in> set (enumerate n xs) \<Longrightarrow> r = r'"
  by (auto simp: in_set_enumerate_eq)

lemma snd_in_enumerate: "(\<exists>j. (j, b) \<in> set (enumerate n xs)) = (b \<in> set xs)"
proof
  assume "\<exists>j. (j, b) \<in> set (enumerate n xs)"
  then show "b \<in> set xs" by (auto simp: in_set_enumerate_eq)
next
  assume "b \<in> set xs"
  then obtain k where "k < length xs" "xs ! k = b" by (auto simp: in_set_conv_nth)
  then have "(n + k, b) \<in> set (enumerate n xs)" by (simp add: in_set_enumerate_eq)
  then show "\<exists>j. (j, b) \<in> set (enumerate n xs)" by blast
qed

lemma map_snd_filter_enumerate:
  "map snd (filter (\<lambda>(i, r). P r) (enumerate n xs)) = filter P xs"
  by (induction xs arbitrary: n) auto

lemma has_extended_iff:
  "has_extended df a =
    (\<exists>b \<in> set df. ref_start_le_total_len b \<and> query_id a = query_id b \<and> reference_id a = reference_id b
                 \<and> map_option (\<lambda>l. ref_end a + l) (total_len a) = Some (ref_end b))"
  by (simp add: has_extended_def list_ex_iff)

lemma filter_snd_enumerate_Nil:
  "(filter (\<lambda>(i, r). P r) (enumerate n xs) = []) = (filter P xs = [])"
  by (induction xs arbitrary: n) auto

lemma has_start_hit_iff:
  "has_start_hit df =
     (filter (\<lambda>(i, r). ref_start r = 1)
        (filter (\<lambda>(i, r). ref_start_le_total_len r) (enumerate n df)) \<noteq> [])"
proof -
  have "filter (\<lambda>(i, r). ref_start r = 1)
          (filter (\<lambda>(i, r). ref_start_le_total_len r) (enumerate n df))
      = filter (\<lambda>(i, r). ref_start_le_total_len r \<and> ref_start r = 1) (enumerate n df)"
    unfolding filter_filter by (rule filter_cong) auto
  then have "(filter (\<lambda>(i, r). ref_start r = 1)
        (filter (\<lambda>(i, r). ref_start_le_total_len r) (enumerate n df)) = [])
      = (filter (\<lambda>r. ref_start_le_total_len r \<and> ref_start r = 1) df = [])"
    by (simp only: filter_snd_enumerate_Nil)
  also have "\<dots> = (\<not> has_start_hit df)"
    unfolding has_start_hit_def list_ex_iff filter_empty_conv by blast
  finally show ?thesis by blast
qed

lemma remove_redundant_result_filter:
  "remove_redundant_result df =
     (if has_start_hit df
      then Inr (filter (\<lambda>r. ref_start_le_total_len r \<and> \<not> (ref_start r = 1 \<and> has_extended df r)) df)
      else Inl KeyError)"
proof -
  define F where "F = filter (\<lambda>(i, r). ref_start_le_total_len r) (enumerate 0 df)"
  define D where "D = concat (map (\<lambda>(i, q, rf, e).
                      map (\<lambda>jb. i)
                        (filter (\<lambda>(j, b). q = query_id b \<and> rf = reference_id b \<and> e = Some (ref_end b)) F))
                    (map (\<lambda>(i, r). (i, get_extended_ref_end r)) (filter (\<lambda>(i, r). ref_start r = 1) F)))"
  have res: "remove_redundant_result df =
      (if filter (\<lambda>(i, r). ref_start r = 1) F = [] then Inl KeyError
       else Inr (map snd (filter (\<lambda>(i, r). i \<notin> set D) F)))"
    unfolding remove_redundant_result_def Let_def F_def D_def by (rule refl)
  have start: "has_start_hit df = (filter (\<lambda>(i, r). ref_start r = 1) F \<noteq> [])"
    unfolding F_def by (rule has_start_hit_iff)
  have inF: "\<And>i r. (i, r) \<in> set F \<longleftrightarrow> (i, r) \<in> set (enumerate 0 df) \<and> ref_start_le_total_len r"
    by (auto simp: F_def)
  have ext: "\<And>a. has_extended df a \<longleftrightarrow>
      (\<exists>(j, b) \<in> set F. query_id a = query_id b \<and> reference_id a = reference_id b
          \<and> map_option (\<lambda>l. ref_end a + l) (total_len a) = Some (ref_end b))"
  proof -
    fix a
    show "has_extended df a \<longleftrightarrow>
      (\<exists>(j, b) \<in> set F. query_id a = query_id b \<and> reference_id a = reference_id b
          \<and> map_option (\<lambda>l. ref_end a + l) (total_len a) = Some (ref_end b))"
      unfolding has_extended_iff
    proof
      assume "\<exists>b\<in>set df. ref_start_le_total_len b \<and> query_id a = query_id b \<and>
         reference_id a = reference_id b \<and> map_option (\<lambda>l. ref_end a + l) (total_len a) = Some (ref_end b)"
      then obtain b where b: "b \<in> set df" "ref_start_le_total_len b" "query_id a = query_id b"
         "reference_id a = reference_id b" "map_option (\<lambda>l. ref_end a + l) (total_len a) = Some (ref_end b)"
        by blast
      from b(1) obtain j where "(j, b) \<in> set (enumerate 0 df)"
        using snd_in_enumerate [of b 0 df] by blast
      with b(2) have "(j, b) \<in> set F" by (simp add: inF)
      with b show "\<exists>(j, b) \<in> set F. query_id a = query_id b \<and> reference_id a = reference_id b
          \<and> map_option (\<lambda>l. ref_end a + l) (total_len a) = Some (ref_end b)"
        by force
    next
      assume "\<exists>(j, b) \<in> set F. query_id a = query_id b \<and> reference_id a = reference_id b
          \<and> map_option (\<lambda>l. ref_end a + l) (total_len a) = Some (ref_end b)"
      then obtain j b where jb: "(j, b) \<in> set F" "query_id a = query_id b" "reference_id a = reference_id b"
          "map_option (\<lambda>l. ref_end a + l) (total_len a) = Some (ref_end b)"
        by blast
      from jb(1) have "b \<in> set df" "ref_start_le_total_len b"
        using snd_in_enumerate [of b 0 df] by (auto simp: inF)
      with jb show "\<exists>b\<in>set df. ref_start_le_total_len b \<and> query_id a = query_id b \<and>
         reference_id a = reference_id b \<and> map_option (\<lambda>l. ref_end a + l) (total_len a) = Some (ref_end b)"
        by force
    qed
  qed
  have inD: "\<And>i. i \<in> set D \<longleftrightarrow> (\<exists>a. (i, a) \<in> set F \<and> ref_start a = 1 \<and> has_extended df a)"
    unfolding ext by (auto simp: D_def get_extended_ref_end_def)
  have key: "\<And>i r. (i, r) \<in> set F \<Longrightarrow> i \<notin> set D \<longleftrightarrow> \<not> (ref_start r = 1 \<and> has_extended df r)"
  proof -
    fix i r assume ir: "(i, r) \<in> set F"
    show "i \<notin> set D \<longleftrightarrow> \<not> (ref_start r = 1 \<and> has_extended df r)"
    proof -
      have "i \<in> set D \<longleftrightarrow> ref_start r = 1 \<and> has_extended df r"
      proof
        assume "i \<in> set D"
        then obtain a where a: "(i, a) \<in> set F" "ref_start a = 1" "has_extended df a"
          unfolding inD by blast
        from a(1) ir have "a = r" using in_enumerate_unique [of i a 0 df r] by (simp add: inF)
        with a show "ref_start r = 1 \<and> has_extended df r" by simp
      next
        assume "ref_start r = 1 \<and> has_extended df r"
        with ir show "i \<in> set D" unfolding inD by blast
      qed
      then show ?thesis by simp
    qed
  qed
  have "filter (\<lambda>(i, r). i \<notin> set D) F = filter (\<lambda>(i, r). \<not> (ref_start r = 1 \<and> has_extended df r)) F"
    by (rule filter_cong) (use key in auto)
  also have "\<dots> = filter (\<lambda>(i, r). ref_start_le_total_len r \<and> \<not> (ref_start r = 1 \<and> has_extended df r))
                     (enumerate 0 df)"
    by (auto simp: F_def intro!: filter_cong)
  finally have "map snd (filter (\<lambda>(i, r). i \<notin> set D) F)
      = filter (\<lambda>r. ref_start_le_total_len r \<and> \<not> (ref_start r = 1 \<and> has_extended df r)) df"
    by (simp add: map_snd_filter_enumerate)
  then show ?thesis
    unfolding res start by simp
qed

lemma remove_redundant_result_Inr:
  assumes "remove_redundant_result df = Inr rows"
  shows "has_start_hit df"
    and "rows = filter (\<lambda>r. ref_start_le_total_len r \<and> \<not> (ref_start r = 1 \<and> has_extended df r)) df"
  using assms unfolding remove_redundant_result_filter by (simp_all split: if_splits)

lemmas example_defs = example_hit_len_def example_hit_def hit.defs hit_len.defs

text \<open>
  C1 (amended). For a frame with coordinates and lengths of at most \<open>2 ^ 52\<close> and with a
  hit at \<^verbatim>\<open>ref_start == 1\<close> that passes the first step,
  \<^verbatim>\<open>remove_redundant_result\<close> returns the rows of its input, in their order, that are
  left when (1) every hit with \<^verbatim>\<open>ref_start > total_len\<close> (or without
  \<^verbatim>\<open>total_len\<close>) is removed, and (2) every remaining hit A with \<^verbatim>\<open>ref_start == 1\<close>
  is removed for which some remaining hit B has the same \<^verbatim>\<open>query_id\<close> and
  \<^verbatim>\<open>reference_id\<close> and \<^verbatim>\<open>B.ref_end == A.ref_end + total_len\<close>. The hits B stay,
  however many match one A; no other row is removed.
\<close>

theorem remove_redundant_result_rows:
  "(exact_range df \<and> has_start_hit df \<longrightarrow>
      remove_redundant_result df =
        Inr (filter (\<lambda>r. ref_start_le_total_len r \<and> \<not> (ref_start r = 1 \<and> has_extended df r)) df))
   \<and> (has_extended df a =
        (\<exists>b \<in> set df. ref_start_le_total_len b \<and> query_id b = query_id a
            \<and> reference_id b = reference_id a
            \<and> (\<exists>l. total_len a = Some l \<and> ref_end b = ref_end a + l)))
   \<and> (has_start_hit df = (\<exists>r \<in> set df. ref_start_le_total_len r \<and> ref_start r = 1))"
proof -
  have "has_extended df a =
        (\<exists>b \<in> set df. ref_start_le_total_len b \<and> query_id b = query_id a
            \<and> reference_id b = reference_id a
            \<and> (\<exists>l. total_len a = Some l \<and> ref_end b = ref_end a + l))"
    unfolding has_extended_def list_ex_iff by (rule bex_cong) auto
  moreover have "has_start_hit df = (\<exists>r \<in> set df. ref_start_le_total_len r \<and> ref_start r = 1)"
    by (simp add: has_start_hit_def list_ex_iff)
  ultimately show ?thesis
    using remove_redundant_result_filter [of df] by simp
qed

text \<open>
  The hit at 1..20 has its extended counterpart at 81..120 and is removed; the hit at
  101..120 starts after the true end; the hit on \<open>S\<close> has no counterpart; the hit on
  \<open>T\<close> has no length.
\<close>

theorem remove_redundant_result_rows_witness:
  "exact_range
     [example_hit_len ''Q'' ''R'' 1 20 (Some 100), example_hit_len ''Q'' ''R'' 81 120 (Some 100),
      example_hit_len ''Q'' ''R'' 101 120 (Some 100), example_hit_len ''Q'' ''S'' 1 20 (Some 100),
      example_hit_len ''Q'' ''T'' 1 20 None]
   \<and> has_start_hit
     [example_hit_len ''Q'' ''R'' 1 20 (Some 100), example_hit_len ''Q'' ''R'' 81 120 (Some 100),
      example_hit_len ''Q'' ''R'' 101 120 (Some 100), example_hit_len ''Q'' ''S'' 1 20 (Some 100),
      example_hit_len ''Q'' ''T'' 1 20 None]
   \<and> remove_redundant_result
     [example_hit_len ''Q'' ''R'' 1 20 (Some 100), example_hit_len ''Q'' ''R'' 81 120 (Some 100),
      example_hit_len ''Q'' ''R'' 101 120 (Some 100), example_hit_len ''Q'' ''S'' 1 20 (Some 100),
      example_hit_len ''Q'' ''T'' 1 20 None]
   = Inr [example_hit_len ''Q'' ''R'' 81 120 (Some 100), example_hit_len ''Q'' ''S'' 1 20 (Some 100)]"
proof -
  let ?df = "[example_hit_len ''Q'' ''R'' 1 20 (Some 100), example_hit_len ''Q'' ''R'' 81 120 (Some 100),
      example_hit_len ''Q'' ''R'' 101 120 (Some 100), example_hit_len ''Q'' ''S'' 1 20 (Some 100),
      example_hit_len ''Q'' ''T'' 1 20 None]"
  have x: "exact_range ?df"
    by (simp add: exact_range_def example_defs)
  have h: "has_start_hit ?df"
    by (simp add: has_start_hit_def ref_start_le_total_len_def example_defs)
  from x h remove_redundant_result_rows [of ?df]
  have "remove_redundant_result ?df =
        Inr (filter (\<lambda>r. ref_start_le_total_len r \<and> \<not> (ref_start r = 1 \<and> has_extended ?df r)) ?df)"
    by blast
  also have "\<dots> = Inr [example_hit_len ''Q'' ''R'' 81 120 (Some 100),
                      example_hit_len ''Q'' ''S'' 1 20 (Some 100)]"
    by (simp add: has_extended_def ref_start_le_total_len_def example_defs)
  finally show ?thesis using x h by simp
qed

text \<open>
  C1 as stated fails on the scenario of the specification (\<^verbatim>\<open>total_len[R] = 100\<close>, A at
  1..20, B at 1..120): the code removes A and keeps B, the filter of the specification
  removes B and keeps A.
\<close>

theorem redundancy_filter_scenario:
  "remove_redundant_result
     [example_hit_len ''Q'' ''R'' 1 20 (Some 100), example_hit_len ''Q'' ''R'' 1 120 (Some 100)]
   = Inr [example_hit_len ''Q'' ''R'' 1 120 (Some 100)]
   \<and> redundancy_filter_spec
     [example_hit_len ''Q'' ''R'' 1 20 (Some 100), example_hit_len ''Q'' ''R'' 1 120 (Some 100)]
   = [example_hit_len ''Q'' ''R'' 1 20 (Some 100)]"
  by code_simp

text \<open>
  C2 (amended). In a frame with coordinates and lengths of at most \<open>2 ^ 52\<close>, a hit with
  \<^verbatim>\<open>ref_start == 1\<close> that passes the first step is in the output exactly when no hit that passes the first step has its \<^verbatim>\<open>query_id\<close> and
  \<^verbatim>\<open>reference_id\<close> and ends at its \<^verbatim>\<open>ref_end + total_len\<close>. That its own
  \<^verbatim>\<open>ref_end\<close> is the extended end of another such hit plays no part.
\<close>

theorem anchor_kept_iff:
  assumes "exact_range df" and "h \<in> set df" and "ref_start h = 1" and "ref_start_le_total_len h"
  shows "\<exists>rows. remove_redundant_result df = Inr rows
           \<and> (h \<in> set rows) = (\<not> has_extended df h)"
proof -
  from assms have "has_start_hit df" by (auto simp: has_start_hit_def list_ex_iff)
  with assms show ?thesis by (simp add: remove_redundant_result_filter)
qed

text \<open>
  The hit at 1..120 is the extended counterpart of the hit at 1..20 and has none of its
  own: it stays.
\<close>

theorem anchor_kept_iff_witness:
  "exact_range [example_hit_len ''Q'' ''R'' 1 20 (Some 100), example_hit_len ''Q'' ''R'' 1 120 (Some 100)]
   \<and> example_hit_len ''Q'' ''R'' 1 120 (Some 100)
     \<in> set [example_hit_len ''Q'' ''R'' 1 20 (Some 100), example_hit_len ''Q'' ''R'' 1 120 (Some 100)]
   \<and> ref_start (example_hit_len ''Q'' ''R'' 1 120 (Some 100)) = 1
   \<and> ref_start_le_total_len (example_hit_len ''Q'' ''R'' 1 120 (Some 100))
   \<and> is_extended_of
       [example_hit_len ''Q'' ''R'' 1 20 (Some 100), example_hit_len ''Q'' ''R'' 1 120 (Some 100)]
       (example_hit_len ''Q'' ''R'' 1 120 (Some 100))
   \<and> (\<exists>rows. remove_redundant_result
         [example_hit_len ''Q'' ''R'' 1 20 (Some 100), example_hit_len ''Q'' ''R'' 1 120 (Some 100)]
           = Inr rows
        \<and> example_hit_len ''Q'' ''R'' 1 120 (Some 100) \<in> set rows)"
proof -
  let ?a = "example_hit_len ''Q'' ''R'' 1 20 (Some 100)"
  let ?b = "example_hit_len ''Q'' ''R'' 1 120 (Some 100)"
  have 0: "exact_range [?a, ?b]" by (simp add: exact_range_def example_defs)
  have 1: "?b \<in> set [?a, ?b]" by simp
  have 2: "ref_start ?b = 1" by (simp add: example_defs)
  have 3: "ref_start_le_total_len ?b" by (simp add: ref_start_le_total_len_def example_defs)
  have 4: "is_extended_of [?a, ?b] ?b"
    by (simp add: is_extended_of_def ref_start_le_total_len_def example_defs)
  have 5: "\<not> has_extended [?a, ?b] ?b"
    by (simp add: has_extended_def ref_start_le_total_len_def example_defs)
  from 0 1 2 3 4 5 anchor_kept_iff [OF 0 1 2 3] show ?thesis by blast
qed

text \<open>
  C2 as stated fails: the hit at 1..20 starts at 1, passes the first step, and is
  removed, because the hit at 81..120 ends at 20 + 100.
\<close>

theorem anchor_removed:
  "ref_start (example_hit_len ''Q'' ''R'' 1 20 (Some 100)) = 1
   \<and> ref_start_le_total_len (example_hit_len ''Q'' ''R'' 1 20 (Some 100))
   \<and> remove_redundant_result
         [example_hit_len ''Q'' ''R'' 1 20 (Some 100), example_hit_len ''Q'' ''R'' 81 120 (Some 100)]
       = Inr [example_hit_len ''Q'' ''R'' 81 120 (Some 100)]"
  by code_simp

lemma remove_redundant_result_again:
  assumes "remove_redundant_result df = Inr rows"
  shows "remove_redundant_result rows = (if has_start_hit rows then Inr rows else Inl KeyError)"
proof -
  have rows: "rows = filter (\<lambda>r. ref_start_le_total_len r \<and> \<not> (ref_start r = 1 \<and> has_extended df r)) df"
    by (rule remove_redundant_result_Inr(2) [OF assms])
  then have sub: "set rows \<subseteq> set df" by auto
  have ext: "\<And>r. has_extended rows r \<Longrightarrow> has_extended df r"
    using sub unfolding has_extended_def list_ex_iff by blast
  have "filter (\<lambda>r. ref_start_le_total_len r \<and> \<not> (ref_start r = 1 \<and> has_extended rows r)) rows = rows"
  proof (rule filter_True)
    show "\<forall>r \<in> set rows. ref_start_le_total_len r \<and> \<not> (ref_start r = 1 \<and> has_extended rows r)"
    proof
      fix r assume "r \<in> set rows"
      then have "ref_start_le_total_len r" and "\<not> (ref_start r = 1 \<and> has_extended df r)"
        unfolding rows by auto
      with ext show "ref_start_le_total_len r \<and> \<not> (ref_start r = 1 \<and> has_extended rows r)"
        by blast
    qed
  qed
  then show ?thesis
    using remove_redundant_result_filter [of rows] by simp
qed

text \<open>
  C7 fails on the code. A second application finds nothing more to remove, but it
  returns only if a hit with \<^verbatim>\<open>ref_start == 1\<close> is left (lemma
  \<open>remove_redundant_result_again\<close>). With \<^verbatim>\<open>total_len\<close> 100 the first application
  removes the hit at 1..20 because of the hit at 81..120; the second application has no
  hit with \<^verbatim>\<open>ref_start == 1\<close> and raises KeyError.
\<close>

theorem second_application_raises:
  "remove_redundant_result
     [example_hit_len ''Q'' ''R'' 1 20 (Some 100), example_hit_len ''Q'' ''R'' 81 120 (Some 100)]
     = Inr [example_hit_len ''Q'' ''R'' 81 120 (Some 100)]
   \<and> remove_redundant_result [example_hit_len ''Q'' ''R'' 81 120 (Some 100)] = Inl KeyError"
  by code_simp

section \<open>AlignmentClusterer\<close>

lemma unique_from_append: "unique_from seen (xs @ ys) = unique_from (unique_from seen xs) ys"
  by (induction xs arbitrary: seen) auto

lemma unique_from_prefix: "\<exists>zs. unique_from seen xs = seen @ zs"
proof (induction xs arbitrary: seen)
  case Nil
  then show ?case by simp
next
  case (Cons x xs)
  show ?case
  proof (cases "x \<in> set seen")
    case True
    with Cons.IH [of seen] show ?thesis by simp
  next
    case False
    from Cons.IH [of "seen @ [x]"] obtain zs where "unique_from (seen @ [x]) xs = (seen @ [x]) @ zs"
      by blast
    with False show ?thesis by simp
  qed
qed

lemma set_unique_from: "set (unique_from seen xs) = set seen \<union> set xs"
  by (induction xs arbitrary: seen) auto

lemma distinct_unique_from: "distinct seen \<Longrightarrow> distinct (unique_from seen xs)"
  by (induction xs arbitrary: seen) auto

lemma set_unique [simp]: "set (unique xs) = set xs"
  by (simp add: unique_def set_unique_from)

lemma distinct_unique [simp]: "distinct (unique xs)"
  by (simp add: unique_def distinct_unique_from)

lemma length_unique: "length (unique xs) = card (set xs)"
  using distinct_card [OF distinct_unique, of xs] by simp

lemma first_index_Cons:
  "first_index (y # ys) x = (if y = x then 0 else Suc (first_index ys x))"
  by (simp add: first_index_def)

lemma first_index_split:
  assumes "x \<in> set xs"
  shows "xs = take (first_index xs x) xs @ x # drop (Suc (first_index xs x)) xs
       \<and> x \<notin> set (take (first_index xs x) xs)
       \<and> first_index xs x < length xs
       \<and> xs ! first_index xs x = x"
  using assms by (induction xs) (auto simp: first_index_Cons)

lemma unique_nth_first:
  assumes "x \<in> set xs"
  shows "card (set (take (first_index xs x) xs)) < length (unique xs)
       \<and> unique xs ! card (set (take (first_index xs x) xs)) = x"
proof -
  let ?f = "first_index xs x"
  let ?P = "unique (take ?f xs)"
  have len: "length ?P = card (set (take ?f xs))" by (rule length_unique)
  have notin: "x \<notin> set ?P" using first_index_split [OF assms] by simp
  have "xs = take ?f xs @ x # drop (Suc ?f) xs"
    using first_index_split [OF assms] by blast
  then have "unique xs = unique_from [] (take ?f xs @ x # drop (Suc ?f) xs)"
    by (simp add: unique_def)
  also have "\<dots> = unique_from ?P (x # drop (Suc ?f) xs)"
    by (simp add: unique_from_append unique_def)
  also have "\<dots> = unique_from (?P @ [x]) (drop (Suc ?f) xs)"
    using notin by simp
  finally obtain zs where "unique xs = (?P @ [x]) @ zs"
    using unique_from_prefix [of "?P @ [x]" "drop (Suc ?f) xs"] by auto
  then have "unique xs = ?P @ x # zs" by simp
  then show ?thesis
    using len by (simp add: nth_append)
qed

lemma filter_enumerate_distinct:
  assumes "distinct us" and "k < length us"
  shows "filter (\<lambda>p. snd p = us ! k) (enumerate n us) = [(n + k, us ! k)]"
  using assms
proof (induction us arbitrary: n k)
  case Nil
  then show ?case by simp
next
  case (Cons u us)
  show ?case
  proof (cases k)
    case 0
    have "filter (\<lambda>p. snd p = u) (enumerate (Suc n) us) = []"
      using Cons.prems(1) by (auto simp: filter_empty_conv in_set_enumerate_eq)
    with 0 show ?thesis by simp
  next
    case (Suc j)
    with Cons.prems have j: "j < length us" and d: "distinct us" and ne: "u \<noteq> us ! j"
      by auto
    from Cons.IH [OF d j, of "Suc n"] Suc ne show ?thesis by simp
  qed
qed

lemma merge_left_Nil [simp]: "merge_left [] lkey right rkey = []"
  by (simp add: merge_left_def)

lemma merge_left_Cons:
  "merge_left (l # ls) lkey right rkey =
     (case filter (\<lambda>r. rkey r = lkey l) right of
        [] \<Rightarrow> [(l, None)]
      | ms \<Rightarrow> map (\<lambda>r. (l, Some r)) ms) @ merge_left ls lkey right rkey"
  by (simp add: merge_left_def)

lemma merge_left_single:
  "\<forall>l \<in> set left. filter (\<lambda>r. rkey r = lkey l) right = [f l] \<Longrightarrow>
   merge_left left lkey right rkey = map (\<lambda>l. (l, Some (f l))) left"
  by (induction left) (simp_all add: merge_left_Cons)

lemma merge_left_unique:
  assumes "distinct us" and "\<forall>r \<in> set rows. key r \<in> set us"
  shows "merge_left rows key (enumerate 0 us) snd
         = map (\<lambda>r. (r, Some (first_index us (key r), key r))) rows"
proof (rule merge_left_single, rule ballI)
  fix r assume "r \<in> set rows"
  with assms(2) have in_us: "key r \<in> set us" by blast
  let ?k = "first_index us (key r)"
  have k: "?k < length us" using first_index_split [OF in_us] by blast
  have "us ! ?k = key r" using first_index_split [OF in_us] by blast
  with filter_enumerate_distinct [OF assms(1) k, of 0]
  show "filter (\<lambda>p. snd p = key r) (enumerate 0 us) = [(?k, key r)]" by simp
qed

lemma aln_id_extend [simp]: "aln_id (hit_aln.extend r (hit_aln_id.fields x)) = x"
  by (simp add: hit_aln.defs hit_aln_id.defs)

lemma aln_extend [simp]: "aln (hit_ev.extend r (hit_aln.fields x)) = x"
  by (simp add: hit_ev.defs hit_aln.defs)

lemma aln_extend_id [simp]: "aln (hit_aln.extend r (hit_aln_id.fields x)) = aln r"
  by (simp add: hit_aln.defs hit_aln_id.defs)

lemma truncate_extend_aln [simp]: "hit_ev.truncate (hit_ev.extend r (hit_aln.fields x)) = r"
  by (simp add: hit_ev.defs hit_aln.defs)

lemma truncate_extend_aln_id [simp]:
  "hit_ev.truncate (hit_aln.extend r (hit_aln_id.fields x)) = hit_ev.truncate r"
  by (simp add: hit_ev.defs hit_aln.defs hit_aln_id.defs)

lemma first_index_nth:
  "distinct us \<Longrightarrow> k < length us \<Longrightarrow> first_index us (us ! k) = k"
proof (induction us arbitrary: k)
  case Nil
  then show ?case by simp
next
  case (Cons u us)
  then show ?case by (cases k) (auto simp: first_index_Cons)
qed

lemma first_index_unique:
  assumes "s \<in> set xs"
  shows "first_index (unique xs) s = seen_before xs s"
proof -
  let ?c = "seen_before xs s"
  from unique_nth_first [OF assms] have lt: "?c < length (unique xs)" and nth: "unique xs ! ?c = s"
    by (simp_all add: seen_before_def)
  from first_index_nth [OF distinct_unique lt]
  have "first_index (unique xs) (unique xs ! ?c) = ?c" .
  then show ?thesis by (simp only: nth)
qed

lemma seen_before_inj:
  assumes "s \<in> set xs" and "t \<in> set xs" and "seen_before xs s = seen_before xs t"
  shows "s = t"
proof -
  from unique_nth_first [OF assms(1)] have s: "unique xs ! seen_before xs s = s"
    by (simp add: seen_before_def)
  from unique_nth_first [OF assms(2)] have t: "unique xs ! seen_before xs t = t"
    by (simp add: seen_before_def)
  from s have "s = unique xs ! seen_before xs t" by (simp only: assms(3))
  with t show ?thesis by simp
qed

lemma generate_aln_id_eq:
  "generate_aln_id rows =
     map (\<lambda>r. hit_aln.extend r (hit_aln_id.fields (Some (seen_before (map aln rows) (aln r))))) rows"
proof -
  let ?U = "unique (map aln rows)"
  have "merge_left rows aln (enumerate 0 ?U) snd
         = map (\<lambda>r. (r, Some (first_index ?U (aln r), aln r))) rows"
    by (rule merge_left_unique) auto
  then have "generate_aln_id rows =
     map (\<lambda>r. hit_aln.extend r (hit_aln_id.fields (Some (first_index ?U (aln r))))) rows"
    by (simp add: generate_aln_id_def Let_def comp_def)
  also have "\<dots> = map (\<lambda>r. hit_aln.extend r (hit_aln_id.fields (Some (seen_before (map aln rows) (aln r))))) rows"
    by (rule map_cong) (simp_all add: first_index_unique)
  finally show ?thesis .
qed

lemma map_aln_append_merged_aln: "map aln (append_merged_aln df) = map signature df"
  by (simp add: append_merged_aln_def signature_def comp_def)

lemma signature_inj:
  assumes "equal_length_aln r" and "equal_length_aln r'" and "signature r = signature r'"
  shows "aln_triple r = aln_triple r'"
proof -
  from assms(1) have l: "length (signature r) = 3 * length (aln_mirna r)"
    by (simp add: equal_length_aln_def signature_def)
  from assms(2) have l': "length (signature r') = 3 * length (aln_mirna r')"
    by (simp add: equal_length_aln_def signature_def)
  from l l' assms(3) have n: "length (aln_mirna r) = length (aln_mirna r')" by simp
  with assms(1,2) have m: "length (aln_map r) = length (aln_map r')"
    by (simp add: equal_length_aln_def)
  from assms(3) n m show ?thesis
    by (simp add: signature_def aln_triple_def)
qed

text \<open>
  C5. \<^verbatim>\<open>generate_aln_id\<close> after \<^verbatim>\<open>append_merged_aln\<close> keeps the hits and their
  order, and the \<^verbatim>\<open>aln_id\<close> of a hit is the number of distinct signatures
  (concatenations of \<^verbatim>\<open>aln_mirna\<close>, \<^verbatim>\<open>aln_map\<close>, \<^verbatim>\<open>aln_utr\<close>) that occur before
  the first hit with its signature: (iii) ids are given in first-seen order, and a later
  hit with a signature seen before takes the id of the first. So (i) two hits with the
  same triple have the same id, whatever their \<^verbatim>\<open>query_id\<close> and
  \<^verbatim>\<open>reference_id\<close>, and (ii) two hits whose triples differ have different ids: the
  three strings of a hit are the three tracks of one alignment and have one length
  (data model of the specification), and for such hits equal signatures are equal
  triples.
\<close>

theorem generate_aln_id_first_seen:
  fixes df :: "hit_ev list"
  shows "map hit_ev.truncate (generate_aln_id (append_merged_aln df)) = df
    \<and> map aln (generate_aln_id (append_merged_aln df)) = map signature df
    \<and> map aln_id (generate_aln_id (append_merged_aln df))
        = map (\<lambda>r. Some (seen_before (map signature df) (signature r))) df
    \<and> (\<forall>i < length df. \<forall>j < length df.
          (aln_id (generate_aln_id (append_merged_aln df) ! i)
             = aln_id (generate_aln_id (append_merged_aln df) ! j))
          = (signature (df ! i) = signature (df ! j)))
    \<and> (\<forall>i < length df. \<forall>j < length df.
          aln_triple (df ! i) = aln_triple (df ! j) \<longrightarrow>
          aln_id (generate_aln_id (append_merged_aln df) ! i)
             = aln_id (generate_aln_id (append_merged_aln df) ! j))
    \<and> (\<forall>i < length df. \<forall>j < length df.
          equal_length_aln (df ! i) \<and> equal_length_aln (df ! j)
          \<and> aln_triple (df ! i) \<noteq> aln_triple (df ! j) \<longrightarrow>
          aln_id (generate_aln_id (append_merged_aln df) ! i)
             \<noteq> aln_id (generate_aln_id (append_merged_aln df) ! j))"
proof -
  let ?out = "generate_aln_id (append_merged_aln df)"
  let ?sigs = "map signature df"
  have rows: "map hit_ev.truncate ?out = df"
    by (simp add: generate_aln_id_eq append_merged_aln_def comp_def)
  have alns: "map aln ?out = ?sigs"
    by (simp add: generate_aln_id_eq comp_def) (simp add: append_merged_aln_def signature_def comp_def)
  have "map aln_id ?out
          = map (\<lambda>r. Some (seen_before ?sigs (aln r))) (append_merged_aln df)"
    by (simp add: generate_aln_id_eq map_aln_append_merged_aln comp_def)
  also have "\<dots> = map (\<lambda>r. Some (seen_before ?sigs (signature r))) df"
    by (simp add: append_merged_aln_def signature_def comp_def)
  finally have ids: "map aln_id ?out = map (\<lambda>r. Some (seen_before ?sigs (signature r))) df" .
  have id_at: "\<And>i. i < length df \<Longrightarrow> aln_id (?out ! i) = Some (seen_before ?sigs (signature (df ! i)))"
  proof -
    fix i assume i: "i < length df"
    then have "i < length ?out" using arg_cong [OF ids, of length] by simp
    then have "aln_id (?out ! i) = map aln_id ?out ! i" by simp
    with i show "aln_id (?out ! i) = Some (seen_before ?sigs (signature (df ! i)))"
      by (simp add: ids)
  qed
  have iff: "\<And>i j. i < length df \<Longrightarrow> j < length df \<Longrightarrow>
      (aln_id (?out ! i) = aln_id (?out ! j)) = (signature (df ! i) = signature (df ! j))"
  proof -
    fix i j assume i: "i < length df" and j: "j < length df"
    then have "signature (df ! i) \<in> set ?sigs" and "signature (df ! j) \<in> set ?sigs" by auto
    then have "seen_before ?sigs (signature (df ! i)) = seen_before ?sigs (signature (df ! j))
        \<Longrightarrow> signature (df ! i) = signature (df ! j)"
      by (rule seen_before_inj)
    then show "(aln_id (?out ! i) = aln_id (?out ! j)) = (signature (df ! i) = signature (df ! j))"
      unfolding id_at [OF i] id_at [OF j] by auto
  qed
  have same: "aln_triple r = aln_triple r' \<Longrightarrow> signature r = signature r'"
    for r r' :: hit_ev by (simp add: aln_triple_def signature_def)
  have p5: "\<forall>i < length df. \<forall>j < length df.
          aln_triple (df ! i) = aln_triple (df ! j) \<longrightarrow> aln_id (?out ! i) = aln_id (?out ! j)"
  proof (intro allI impI)
    fix i j assume i: "i < length df" and j: "j < length df"
      and h: "aln_triple (df ! i) = aln_triple (df ! j)"
    from same [OF h] show "aln_id (?out ! i) = aln_id (?out ! j)"
      by (simp add: iff [OF i j])
  qed
  have p6: "\<forall>i < length df. \<forall>j < length df.
          equal_length_aln (df ! i) \<and> equal_length_aln (df ! j)
          \<and> aln_triple (df ! i) \<noteq> aln_triple (df ! j) \<longrightarrow> aln_id (?out ! i) \<noteq> aln_id (?out ! j)"
  proof (intro allI impI)
    fix i j assume i: "i < length df" and j: "j < length df"
      and h: "equal_length_aln (df ! i) \<and> equal_length_aln (df ! j)
          \<and> aln_triple (df ! i) \<noteq> aln_triple (df ! j)"
    then have "signature (df ! i) \<noteq> signature (df ! j)"
      using signature_inj [of "df ! i" "df ! j"] by blast
    then show "aln_id (?out ! i) \<noteq> aln_id (?out ! j)"
      by (simp add: iff [OF i j])
  qed
  have p4: "\<forall>i < length df. \<forall>j < length df.
          (aln_id (?out ! i) = aln_id (?out ! j)) = (signature (df ! i) = signature (df ! j))"
    by (intro allI impI) (rule iff)
  show ?thesis
    by (intro conjI) (rule rows alns ids p4 p5 p6)+
qed

text \<open>Three hits, the third with the alignment of the first and another pair of identifiers.\<close>

theorem generate_aln_id_first_seen_witness:
  "map aln_id (generate_aln_id (append_merged_aln
     [example_hit_ev ''miR-1'' ''R1'' ''ACGU'' ''||:|'' ''UGUA'',
      example_hit_ev ''miR-1'' ''R1'' ''ACGG'' ''||| '' ''UGCA'',
      example_hit_ev ''miR-2'' ''R2'' ''ACGU'' ''||:|'' ''UGUA''])) = [Some 0, Some 1, Some 0]
   \<and> equal_length_aln (example_hit_ev ''miR-1'' ''R1'' ''ACGU'' ''||:|'' ''UGUA'')
   \<and> equal_length_aln (example_hit_ev ''miR-1'' ''R1'' ''ACGG'' ''||| '' ''UGCA'')
   \<and> aln_triple (example_hit_ev ''miR-1'' ''R1'' ''ACGU'' ''||:|'' ''UGUA'')
       \<noteq> aln_triple (example_hit_ev ''miR-1'' ''R1'' ''ACGG'' ''||| '' ''UGCA'')
   \<and> aln_triple (example_hit_ev ''miR-1'' ''R1'' ''ACGU'' ''||:|'' ''UGUA'')
       = aln_triple (example_hit_ev ''miR-2'' ''R2'' ''ACGU'' ''||:|'' ''UGUA'')"
proof -
  let ?df = "[example_hit_ev ''miR-1'' ''R1'' ''ACGU'' ''||:|'' ''UGUA'',
      example_hit_ev ''miR-1'' ''R1'' ''ACGG'' ''||| '' ''UGCA'',
      example_hit_ev ''miR-2'' ''R2'' ''ACGU'' ''||:|'' ''UGUA'']"
  from generate_aln_id_first_seen [of ?df]
  have "map aln_id (generate_aln_id (append_merged_aln ?df))
        = map (\<lambda>r. Some (seen_before (map signature ?df) (signature r))) ?df"
    by blast
  also have "\<dots> = [Some 0, Some 1, Some 0]"
    by (simp add: seen_before_def first_index_def signature_def example_hit_ev_def)
  finally show ?thesis
    by (simp add: equal_length_aln_def aln_triple_def example_hit_ev_def)
qed

section \<open>Aggregator\<close>

lemma set_group_keys:
  "set (group_keys df) = {(e, q). \<exists>r \<in> set df. ev_id r = Some e \<and> query_id r = q}"
  by (auto simp: group_keys_def List.map_filter_def image_iff) force+



lemma keys_get_grouped_results:
  "map (\<lambda>s. (grp_ev_id s, mirna s)) (get_grouped_results df) = group_keys df"
  by (simp add: get_grouped_results_def Let_def comp_def)





section \<open>Missing lengths and events\<close>

lemma merge_left_row:
  "(case ms of [] \<Rightarrow> [(l, None)] | a # as \<Rightarrow> map (\<lambda>r. (l, Some r)) (a # as))
     = (if ms = [] then [(l, None)] else map (\<lambda>r. (l, Some r)) ms)"
  by (cases ms) simp_all

lemma in_merge_left_row:
  "((l', m) \<in> set (if ms = [] then [(l, None)] else map (\<lambda>r. (l, Some r)) ms))
     = (l' = l \<and> (case m of None \<Rightarrow> ms = [] | Some r \<Rightarrow> r \<in> set ms))"
  by (cases m) auto

lemma in_merge_left:
  "((l, m) \<in> set (merge_left left lkey right rkey)) =
     (l \<in> set left \<and>
        (case m of None \<Rightarrow> \<forall>r \<in> set right. rkey r \<noteq> lkey l
                 | Some r \<Rightarrow> r \<in> set right \<and> rkey r = lkey l))"
proof (induction left)
  case Nil
  then show ?case by simp
next
  case (Cons x xs)
  have row: "((l, m) \<in> set (if filter (\<lambda>r. rkey r = lkey x) right = [] then [(x, None)]
                            else map (\<lambda>r. (x, Some r)) (filter (\<lambda>r. rkey r = lkey x) right)))
     = (l = x \<and> (case m of None \<Rightarrow> \<forall>r \<in> set right. rkey r \<noteq> lkey l
                 | Some r \<Rightarrow> r \<in> set right \<and> rkey r = lkey l))"
    unfolding in_merge_left_row by (cases m) (auto simp: filter_empty_conv)
  have "((l, m) \<in> set (merge_left (x # xs) lkey right rkey))
      = ((l, m) \<in> set (if filter (\<lambda>r. rkey r = lkey x) right = [] then [(x, None)]
                            else map (\<lambda>r. (x, Some r)) (filter (\<lambda>r. rkey r = lkey x) right))
         \<or> (l, m) \<in> set (merge_left xs lkey right rkey))"
    by (simp only: merge_left_Cons merge_left_row set_append Un_iff)
  then show ?case
    unfolding row Cons.IH by auto
qed

lemma reference_id_extend_len [simp]:
  "reference_id (hit.extend h (hit_len.fields x)) = reference_id h"
  by (simp add: hit.defs hit_len.defs)

lemma reference_id_extend_cb [simp]:
  "reference_id (hit_len.extend r (hit_cb.fields x)) = reference_id r"
  by (simp add: hit_len.defs hit_cb.defs)

lemma reference_id_extend_ev [simp]:
  "reference_id (hit_cb.extend r (hit_ev.fields x)) = reference_id r"
  by (simp add: hit_cb.defs hit_ev.defs)

lemma ev_id_extend [simp]: "ev_id (hit_cb.extend r (hit_ev.fields x)) = x"
  by (simp add: hit_cb.defs hit_ev.defs)

lemma reference_id_truncate_ev [simp]: "reference_id (hit_ev.truncate r) = reference_id r"
  by (simp add: hit_ev.defs)

lemma ev_id_truncate_ev [simp]: "ev_id (hit_ev.truncate r) = ev_id r"
  by (simp add: hit_ev.defs)

lemma in_append_exons_len:
  "(r \<in> set (append_exons_len miranda_df exons_len_df)) =
     (\<exists>h m. r = hit.extend h (hit_len.fields (map_option snd m)) \<and> h \<in> set miranda_df
        \<and> (case m of None \<Rightarrow> \<forall>e \<in> set exons_len_df. fst e \<noteq> reference_id h
                    | Some e \<Rightarrow> e \<in> set exons_len_df \<and> fst e = reference_id h))"
proof -
  have "(r \<in> set (append_exons_len miranda_df exons_len_df)) =
     (\<exists>h m. (h, m) \<in> set (merge_left miranda_df reference_id exons_len_df fst)
         \<and> r = hit.extend h (hit_len.fields (map_option snd m)))"
    unfolding append_exons_len_def set_map image_iff by (simp add: split_beta) force
  then show ?thesis unfolding in_merge_left by blast
qed

lemma in_append_ev_id:
  "(r \<in> set (append_ev_id df exons_ev_id_df)) =
     (\<exists>h m. r = hit_cb.extend h (hit_ev.fields (map_option snd m)) \<and> h \<in> set df
        \<and> (case m of None \<Rightarrow> \<forall>e \<in> set exons_ev_id_df. fst e \<noteq> reference_id h
                    | Some e \<Rightarrow> e \<in> set exons_ev_id_df \<and> fst e = reference_id h))"
proof -
  have "(r \<in> set (append_ev_id df exons_ev_id_df)) =
     (\<exists>h m. (h, m) \<in> set (merge_left df reference_id exons_ev_id_df fst)
         \<and> r = hit_cb.extend h (hit_ev.fields (map_option snd m)))"
    unfolding append_ev_id_def set_sort set_map image_iff by (simp add: split_beta) force
  then show ?thesis unfolding in_merge_left by blast
qed

lemma missing_len:
  assumes "r \<in> set (append_exons_len miranda_df exons_len_df)"
  shows "(total_len r = None) = (reference_id r \<notin> fst ` set exons_len_df)"
proof -
  from assms obtain h m where r: "r = hit.extend h (hit_len.fields (map_option snd m))"
    and m: "case m of None \<Rightarrow> \<forall>e \<in> set exons_len_df. fst e \<noteq> reference_id h
                    | Some e \<Rightarrow> e \<in> set exons_len_df \<and> fst e = reference_id h"
    unfolding in_append_exons_len by blast
  from m show ?thesis unfolding r by (cases m) (force simp: image_iff)+
qed

lemma missing_ev:
  assumes "r \<in> set (append_ev_id df exons_ev_id_df)"
  shows "(ev_id r = None) = (reference_id r \<notin> fst ` set exons_ev_id_df)"
    and "ev_id r = Some e \<Longrightarrow> e \<in> snd ` set exons_ev_id_df"
proof -
  from assms obtain h m where r: "r = hit_cb.extend h (hit_ev.fields (map_option snd m))"
    and m: "case m of None \<Rightarrow> \<forall>e \<in> set exons_ev_id_df. fst e \<noteq> reference_id h
                    | Some e \<Rightarrow> e \<in> set exons_ev_id_df \<and> fst e = reference_id h"
    unfolding in_append_ev_id by blast
  from m show "(ev_id r = None) = (reference_id r \<notin> fst ` set exons_ev_id_df)"
    unfolding r by (cases m) (force simp: image_iff)+
  assume "ev_id r = Some e"
  with m show "e \<in> snd ` set exons_ev_id_df"
    unfolding r by (cases m) (force simp: image_iff)+
qed

lemma kept_missing_len:
  assumes "h \<in> set miranda_df" and "reference_id h \<notin> fst ` set exons_len_df"
  shows "hit.extend h (hit_len.fields None) \<in> set (append_exons_len miranda_df exons_len_df)"
  unfolding in_append_exons_len
  using assms by (intro exI [of _ h] exI [of _ None]) (auto simp: image_iff)

lemma kept_missing_ev:
  assumes "h \<in> set df" and "reference_id h \<notin> fst ` set exons_ev_id_df"
  shows "hit_cb.extend h (hit_ev.fields None) \<in> set (append_ev_id df exons_ev_id_df)"
  unfolding in_append_ev_id
  using assms by (intro exI [of _ h] exI [of _ None]) (auto simp: image_iff)

lemma dropped_missing_len:
  assumes "remove_redundant_result (append_exons_len miranda_df exons_len_df) = Inr rows"
    and "r \<in> set rows"
  shows "reference_id r \<in> fst ` set exons_len_df"
proof -
  from assms have "r \<in> set (append_exons_len miranda_df exons_len_df)"
    and "ref_start_le_total_len r"
    by (simp_all add: remove_redundant_result_Inr(2) [OF assms(1)])
  then show ?thesis
    using missing_len [of r miranda_df exons_len_df]
    by (auto simp: ref_start_le_total_len_def split: option.splits)
qed

lemma group_keys_defined:
  "group_keys (filter (\<lambda>r. ev_id r \<noteq> None) df) = group_keys df"
proof -
  have "List.map_filter (\<lambda>r. map_option (\<lambda>e. (e, query_id r)) (ev_id r)) (filter (\<lambda>r. ev_id r \<noteq> None) df)
      = List.map_filter (\<lambda>r. map_option (\<lambda>e. (e, query_id r)) (ev_id r)) df"
    by (induction df) auto
  then show ?thesis by (simp add: group_keys_def)
qed

lemma group_rows_defined:
  "group_rows (filter (\<lambda>r. ev_id r \<noteq> None) df) k = group_rows df k"
  unfolding group_rows_def filter_filter by (rule filter_cong) auto

lemma get_grouped_results_defined:
  "get_grouped_results (filter (\<lambda>r. ev_id r \<noteq> None) df) = get_grouped_results df"
  unfolding get_grouped_results_def group_keys_defined group_rows_defined by (rule refl)

lemma truncate_generate_aln_id:
  "map hit_ev.truncate (generate_aln_id (append_merged_aln df)) = df"
  by (simp add: generate_aln_id_eq append_merged_aln_def comp_def)

lemma in_clustered:
  assumes "r \<in> set (generate_aln_id (append_merged_aln df))"
  shows "hit_ev.truncate r \<in> set df"
proof -
  from assms have "hit_ev.truncate r \<in> set (map hit_ev.truncate (generate_aln_id (append_merged_aln df)))"
    by (simp only: set_map image_eqI)
  then show ?thesis by (simp only: truncate_generate_aln_id)
qed

lemma truncate_len_aln_id [simp]:
  "hit_len.truncate (r :: hit_aln_id) = hit_len.truncate (hit_ev.truncate r)"
  by (simp add: hit_len.defs hit_ev.defs)

lemma truncate_len_ev [simp]:
  "hit_len.truncate (hit_cb.extend h (hit_ev.fields x)) = hit_len.truncate h"
  by (simp add: hit_len.defs hit_cb.defs hit_ev.defs)

lemma truncate_len_cb:
  "hit_len.truncate (hit_len.extend (g :: hit_len) (hit_cb.fields x)) = g"
  by (simp add: hit_len.defs hit_cb.defs)

lemma truncate_append_ev_id:
  "hit_len.truncate ` set (append_ev_id (append_cross_boundary rows) exons_ev_id_df) = set rows"
proof (intro set_eqI iffI)
  fix g assume "g \<in> hit_len.truncate ` set (append_ev_id (append_cross_boundary rows) exons_ev_id_df)"
  then obtain r where r: "r \<in> set (append_ev_id (append_cross_boundary rows) exons_ev_id_df)"
    and g: "g = hit_len.truncate r" by blast
  from r obtain h and m :: "(string \<times> string) option"
    where rh: "r = hit_cb.extend h (hit_ev.fields (map_option snd m))"
      and h: "h \<in> set (append_cross_boundary rows)"
    unfolding in_append_ev_id by blast
  from h obtain g' where hg: "h = hit_len.extend g' (hit_cb.fields (is_cross_boundary g'))"
    and g': "g' \<in> set rows"
    by (auto simp: append_cross_boundary_def)
  have "g = g'" unfolding g rh hg by (simp add: truncate_len_cb)
  with g' show "g \<in> set rows" by simp
next
  fix g assume g: "g \<in> set rows"
  let ?h = "hit_len.extend g (hit_cb.fields (is_cross_boundary g))"
  have h: "?h \<in> set (append_cross_boundary rows)"
    using g by (auto simp: append_cross_boundary_def)
  let ?ms = "filter (\<lambda>e. fst e = reference_id ?h) exons_ev_id_df"
  have "\<exists>m :: (string \<times> string) option. hit_cb.extend ?h (hit_ev.fields (map_option snd m))
           \<in> set (append_ev_id (append_cross_boundary rows) exons_ev_id_df)"
  proof (cases ?ms)
    case Nil
    then have "\<forall>e \<in> set exons_ev_id_df. fst e \<noteq> reference_id ?h"
      by (auto simp: filter_empty_conv)
    with h have "hit_cb.extend ?h (hit_ev.fields (map_option snd None))
           \<in> set (append_ev_id (append_cross_boundary rows) exons_ev_id_df)"
      unfolding in_append_ev_id by (intro exI [of _ ?h] exI [of _ None]) simp
    then show ?thesis by blast
  next
    case (Cons e es)
    then have "e \<in> set ?ms" by simp
    then have "e \<in> set exons_ev_id_df \<and> fst e = reference_id ?h" by simp
    with h have "hit_cb.extend ?h (hit_ev.fields (map_option snd (Some e)))
           \<in> set (append_ev_id (append_cross_boundary rows) exons_ev_id_df)"
      unfolding in_append_ev_id by (intro exI [of _ ?h] exI [of _ "Some e"]) simp
    then show ?thesis by blast
  qed
  then obtain m :: "(string \<times> string) option" where "hit_cb.extend ?h (hit_ev.fields (map_option snd m))
           \<in> set (append_ev_id (append_cross_boundary rows) exons_ev_id_df)" by blast
  then have "hit_len.truncate (hit_cb.extend ?h (hit_ev.fields (map_option snd m)))
      \<in> hit_len.truncate ` set (append_ev_id (append_cross_boundary rows) exons_ev_id_df)"
    by (rule imageI)
  then show "g \<in> hit_len.truncate ` set (append_ev_id (append_cross_boundary rows) exons_ev_id_df)"
    by (simp add: truncate_len_cb)
qed

lemma set_clustered:
  "hit_ev.truncate ` set (generate_aln_id (append_merged_aln df)) = set df"
proof -
  have "set (map hit_ev.truncate (generate_aln_id (append_merged_aln df))) = set df"
    by (simp only: truncate_generate_aln_id)
  then show ?thesis by simp
qed

lemma truncate_clustered:
  "hit_len.truncate ` set (generate_aln_id (append_merged_aln
       (append_ev_id (append_cross_boundary rows) exons_ev_id_df))) = set rows"
proof -
  let ?W = "append_ev_id (append_cross_boundary rows) exons_ev_id_df"
  have "hit_len.truncate ` set (generate_aln_id (append_merged_aln ?W))
      = hit_len.truncate ` (hit_ev.truncate ` set (generate_aln_id (append_merged_aln ?W)))"
    by (simp add: image_image)
  also have "\<dots> = hit_len.truncate ` set ?W" by (simp only: set_clustered)
  also have "\<dots> = set rows" by (rule truncate_append_ev_id)
  finally show ?thesis .
qed

lemma clustered_ev:
  assumes "r \<in> set (generate_aln_id (append_merged_aln (append_ev_id df exons_ev_id_df)))"
  shows "(ev_id r = None) = (reference_id r \<notin> fst ` set exons_ev_id_df)"
    and "ev_id r = Some e \<Longrightarrow> e \<in> snd ` set exons_ev_id_df"
proof -
  from assms have t: "hit_ev.truncate r \<in> set (append_ev_id df exons_ev_id_df)"
    by (rule in_clustered)
  from missing_ev(1) [OF t] show "(ev_id r = None) = (reference_id r \<notin> fst ` set exons_ev_id_df)"
    by simp
  assume "ev_id r = Some e"
  then have "ev_id (hit_ev.truncate r) = Some e" by simp
  with t show "e \<in> snd ` set exons_ev_id_df" by (rule missing_ev(2))
qed

lemma summary_ev:
  assumes "s \<in> set (get_grouped_results
             (generate_aln_id (append_merged_aln (append_ev_id df exons_ev_id_df))))"
  shows "grp_ev_id s \<in> snd ` set exons_ev_id_df"
proof -
  let ?c = "generate_aln_id (append_merged_aln (append_ev_id df exons_ev_id_df))"
  from assms have "(grp_ev_id s, mirna s) \<in> set (map (\<lambda>s. (grp_ev_id s, mirna s)) (get_grouped_results ?c))"
    by (simp only: set_map image_eqI)
  then have "(grp_ev_id s, mirna s) \<in> set (group_keys ?c)"
    by (simp only: keys_get_grouped_results)
  then obtain r where r: "r \<in> set ?c" and e: "ev_id r = Some (grp_ev_id s)"
    by (auto simp: set_group_keys)
  from r e show ?thesis by (rule clustered_ev(2))
qed

text \<open>Without a hit at \<^verbatim>\<open>ref_start == 1\<close> that has a length the filter fails, and the pipeline with it.\<close>

lemma consolidate_KeyError:
  assumes "\<not> has_start_hit (append_exons_len miranda_df exons_len_df)"
  shows "consolidate miranda_df exons_len_df exons_ev_id_df = Inl KeyError"
  using assms by (simp add: consolidate_def remove_redundant_result_filter)

lemma has_start_hit_tables:
  "has_start_hit (append_exons_len miranda_df exons_len_df) =
     (\<exists>h \<in> set miranda_df. ref_start h = 1
         \<and> (\<exists>e \<in> set exons_len_df. fst e = reference_id h \<and> 1 \<le> snd e))"
proof -
  have "has_start_hit (append_exons_len miranda_df exons_len_df) =
      (\<exists>r \<in> set (append_exons_len miranda_df exons_len_df). ref_start_le_total_len r \<and> ref_start r = 1)"
    by (simp add: has_start_hit_def list_ex_iff)
  also have "\<dots> = (\<exists>h \<in> set miranda_df. ref_start h = 1
         \<and> (\<exists>e \<in> set exons_len_df. fst e = reference_id h \<and> 1 \<le> snd e))"
  proof
    assume "\<exists>r \<in> set (append_exons_len miranda_df exons_len_df). ref_start_le_total_len r \<and> ref_start r = 1"
    then obtain r where r: "r \<in> set (append_exons_len miranda_df exons_len_df)"
      and le: "ref_start_le_total_len r" and s: "ref_start r = 1" by blast
    from r obtain h and m :: "(string \<times> int) option"
      where rh: "r = hit.extend h (hit_len.fields (map_option snd m))" and h: "h \<in> set miranda_df"
        and m: "case m of None \<Rightarrow> \<forall>e \<in> set exons_len_df. fst e \<noteq> reference_id h
                    | Some e \<Rightarrow> e \<in> set exons_len_df \<and> fst e = reference_id h"
      unfolding in_append_exons_len by blast
    from le obtain e where me: "m = Some e" and "ref_start r \<le> snd e"
      unfolding rh ref_start_le_total_len_def by (cases m) (auto simp: hit.defs hit_len.defs)
    with s m have "e \<in> set exons_len_df \<and> fst e = reference_id h \<and> 1 \<le> snd e" by simp
    moreover from s have "ref_start h = 1" unfolding rh by (simp add: hit.defs hit_len.defs)
    ultimately show "\<exists>h \<in> set miranda_df. ref_start h = 1
         \<and> (\<exists>e \<in> set exons_len_df. fst e = reference_id h \<and> 1 \<le> snd e)"
      using h by blast
  next
    assume "\<exists>h \<in> set miranda_df. ref_start h = 1
         \<and> (\<exists>e \<in> set exons_len_df. fst e = reference_id h \<and> 1 \<le> snd e)"
    then obtain h e where h: "h \<in> set miranda_df" and s: "ref_start h = 1"
      and e: "e \<in> set exons_len_df" "fst e = reference_id h" "1 \<le> snd e" by blast
    let ?r = "hit.extend h (hit_len.fields (map_option snd (Some e)))"
    have "?r \<in> set (append_exons_len miranda_df exons_len_df)"
      unfolding in_append_exons_len using h e by (intro exI [of _ h] exI [of _ "Some e"]) simp
    moreover have "ref_start_le_total_len ?r \<and> ref_start ?r = 1"
      using s e(3) by (simp add: ref_start_le_total_len_def hit.defs hit_len.defs)
    ultimately show "\<exists>r \<in> set (append_exons_len miranda_df exons_len_df). ref_start_le_total_len r \<and> ref_start r = 1"
      by blast
  qed
  finally show ?thesis .
qed

text \<open>
  C3 (amended). \<^verbatim>\<open>append_exons_len\<close> keeps a hit whose \<^verbatim>\<open>reference_id\<close> is not in
  the table of lengths, with \<^verbatim>\<open>total_len\<close> undefined, and \<^verbatim>\<open>append_ev_id\<close> keeps a
  hit whose \<^verbatim>\<open>reference_id\<close> is not in the table of events, with \<^verbatim>\<open>ev_id\<close>
  undefined; in both tables \<^verbatim>\<open>total_len\<close> and \<^verbatim>\<open>ev_id\<close> are undefined for these
  hits only. On
  tables (with coordinates and lengths of at most \<open>2 ^ 52\<close>) in which some hit with
  \<^verbatim>\<open>ref_start == 1\<close> has a length of at least 1, the pipeline raises nothing and
  returns both tables. The table of the clustered hits holds exactly the hits that
  \<^verbatim>\<open>remove_redundant_result\<close> returns; each of them has a length (the hits without
  one are dropped by its first step, silently), and those without an event are among
  them, with \<^verbatim>\<open>ev_id\<close> undefined. The summary is the summary of the clustered hits with
  an event, and each of its rows is the row of an event of the table of events.
\<close>

theorem missing_mapping_skipped:
  "(\<forall>r \<in> set (append_exons_len miranda_df exons_len_df).
       (total_len r = None) = (reference_id r \<notin> fst ` set exons_len_df))
   \<and> (\<forall>h \<in> set miranda_df. reference_id h \<notin> fst ` set exons_len_df \<longrightarrow>
         hit.extend h (hit_len.fields None) \<in> set (append_exons_len miranda_df exons_len_df))
   \<and> (\<forall>r \<in> set (append_ev_id df exons_ev_id_df).
         (ev_id r = None) = (reference_id r \<notin> fst ` set exons_ev_id_df))
   \<and> (\<forall>h \<in> set df. reference_id h \<notin> fst ` set exons_ev_id_df \<longrightarrow>
         hit_cb.extend h (hit_ev.fields None) \<in> set (append_ev_id df exons_ev_id_df))
   \<and> has_start_hit (append_exons_len miranda_df exons_len_df)
       = (\<exists>h \<in> set miranda_df. ref_start h = 1
            \<and> (\<exists>e \<in> set exons_len_df. fst e = reference_id h \<and> 1 \<le> snd e))
   \<and> (exact_range (append_exons_len miranda_df exons_len_df)
        \<and> has_start_hit (append_exons_len miranda_df exons_len_df) \<longrightarrow>
          (\<exists>rows clustered.
              remove_redundant_result (append_exons_len miranda_df exons_len_df) = Inr rows
            \<and> consolidate miranda_df exons_len_df exons_ev_id_df
                = Inr (clustered, get_grouped_results (filter (\<lambda>r. ev_id r \<noteq> None) clustered))
            \<and> hit_len.truncate ` set clustered = set rows
            \<and> (\<forall>r \<in> set rows. reference_id r \<in> fst ` set exons_len_df)
            \<and> (\<forall>r \<in> set clustered.
                  (ev_id r = None) = (reference_id r \<notin> fst ` set exons_ev_id_df))
            \<and> (\<forall>s \<in> set (get_grouped_results (filter (\<lambda>r. ev_id r \<noteq> None) clustered)).
                  grp_ev_id s \<in> snd ` set exons_ev_id_df)))"
proof (intro conjI ballI impI)
  fix r assume "r \<in> set (append_exons_len miranda_df exons_len_df)"
  then show "(total_len r = None) = (reference_id r \<notin> fst ` set exons_len_df)"
    by (rule missing_len)
next
  fix h assume "h \<in> set miranda_df" and "reference_id h \<notin> fst ` set exons_len_df"
  then show "hit.extend h (hit_len.fields None) \<in> set (append_exons_len miranda_df exons_len_df)"
    by (rule kept_missing_len)
next
  fix r assume "r \<in> set (append_ev_id df exons_ev_id_df)"
  then show "(ev_id r = None) = (reference_id r \<notin> fst ` set exons_ev_id_df)"
    by (rule missing_ev(1))
next
  fix h assume "h \<in> set df" and "reference_id h \<notin> fst ` set exons_ev_id_df"
  then show "hit_cb.extend h (hit_ev.fields None) \<in> set (append_ev_id df exons_ev_id_df)"
    by (rule kept_missing_ev)
next
  show "has_start_hit (append_exons_len miranda_df exons_len_df)
       = (\<exists>h \<in> set miranda_df. ref_start h = 1
            \<and> (\<exists>e \<in> set exons_len_df. fst e = reference_id h \<and> 1 \<le> snd e))"
    by (rule has_start_hit_tables)
next
  assume a: "exact_range (append_exons_len miranda_df exons_len_df)
        \<and> has_start_hit (append_exons_len miranda_df exons_len_df)"
  let ?rows = "filter (\<lambda>r. ref_start_le_total_len r
                  \<and> \<not> (ref_start r = 1 \<and> has_extended (append_exons_len miranda_df exons_len_df) r))
                (append_exons_len miranda_df exons_len_df)"
  let ?clustered = "generate_aln_id (append_merged_aln
                      (append_ev_id (append_cross_boundary ?rows) exons_ev_id_df))"
  have f: "remove_redundant_result (append_exons_len miranda_df exons_len_df) = Inr ?rows"
    using a by (simp add: remove_redundant_result_filter)
  have c: "consolidate miranda_df exons_len_df exons_ev_id_df
             = Inr (?clustered, get_grouped_results (filter (\<lambda>r. ev_id r \<noteq> None) ?clustered))"
    unfolding get_grouped_results_defined by (simp add: consolidate_def f Let_def)
  have t: "hit_len.truncate ` set ?clustered = set ?rows" by (rule truncate_clustered)
  have l: "\<forall>r \<in> set ?rows. reference_id r \<in> fst ` set exons_len_df"
    using dropped_missing_len [OF f] by blast
  have e: "\<forall>r \<in> set ?clustered. (ev_id r = None) = (reference_id r \<notin> fst ` set exons_ev_id_df)"
    using clustered_ev(1) by blast
  have s: "\<forall>s \<in> set (get_grouped_results (filter (\<lambda>r. ev_id r \<noteq> None) ?clustered)).
             grp_ev_id s \<in> snd ` set exons_ev_id_df"
    unfolding get_grouped_results_defined using summary_ev by blast
  from f c t l e s
  show "\<exists>rows clustered.
              remove_redundant_result (append_exons_len miranda_df exons_len_df) = Inr rows
            \<and> consolidate miranda_df exons_len_df exons_ev_id_df
                = Inr (clustered, get_grouped_results (filter (\<lambda>r. ev_id r \<noteq> None) clustered))
            \<and> hit_len.truncate ` set clustered = set rows
            \<and> (\<forall>r \<in> set rows. reference_id r \<in> fst ` set exons_len_df)
            \<and> (\<forall>r \<in> set clustered.
                  (ev_id r = None) = (reference_id r \<notin> fst ` set exons_ev_id_df))
            \<and> (\<forall>s \<in> set (get_grouped_results (filter (\<lambda>r. ev_id r \<noteq> None) clustered)).
                  grp_ev_id s \<in> snd ` set exons_ev_id_df)"
    by (intro exI [of _ ?rows] exI [of _ ?clustered] conjI)
qed

text \<open>
  The hit on \<open>R3\<close> has no length and the hit on \<open>R1\<close> has no event: the pipeline
  returns, with the hits on \<open>R1\<close> and \<open>R2\<close> as its clustered hits, the hit on \<open>R1\<close>
  without \<^verbatim>\<open>ev_id\<close>.
\<close>

theorem missing_mapping_skipped_witness:
  "exact_range (append_exons_len
       [example_hit ''Q1'' ''R1'' 1 20, example_hit ''Q1'' ''R2'' 5 25, example_hit ''Q1'' ''R3'' 5 25]
       [(''R1'', 100), (''R2'', 100)])
   \<and> has_start_hit (append_exons_len
       [example_hit ''Q1'' ''R1'' 1 20, example_hit ''Q1'' ''R2'' 5 25, example_hit ''Q1'' ''R3'' 5 25]
       [(''R1'', 100), (''R2'', 100)])
   \<and> (\<exists>clustered.
         consolidate
             [example_hit ''Q1'' ''R1'' 1 20, example_hit ''Q1'' ''R2'' 5 25, example_hit ''Q1'' ''R3'' 5 25]
             [(''R1'', 100), (''R2'', 100)] [(''R2'', ''E2'')]
           = Inr (clustered, get_grouped_results (filter (\<lambda>r. ev_id r \<noteq> None) clustered))
       \<and> hit_len.truncate ` set clustered
           = {example_hit_len ''Q1'' ''R1'' 1 20 (Some 100), example_hit_len ''Q1'' ''R2'' 5 25 (Some 100)}
       \<and> list_all (\<lambda>r. (ev_id r = None) = (reference_id r \<noteq> ''R2'')) clustered)"
proof -
  let ?m = "[example_hit ''Q1'' ''R1'' 1 20, example_hit ''Q1'' ''R2'' 5 25, example_hit ''Q1'' ''R3'' 5 25]"
  let ?l = "[(''R1'', 100::int), (''R2'', 100)]"
  let ?e = "[(''R2'', ''E2'')]"
  have x: "exact_range (append_exons_len ?m ?l)" by code_simp
  have h: "has_start_hit (append_exons_len ?m ?l)" by code_simp
  have f: "remove_redundant_result (append_exons_len ?m ?l)
             = Inr [example_hit_len ''Q1'' ''R1'' 1 20 (Some 100),
                    example_hit_len ''Q1'' ''R2'' 5 25 (Some 100)]"
    by code_simp
  note k = missing_mapping_skipped [of ?m ?l _ ?e, THEN conjunct2, THEN conjunct2,
      THEN conjunct2, THEN conjunct2, THEN conjunct2, THEN mp, OF conjI [OF x h]]
  then obtain rows clustered where
      "remove_redundant_result (append_exons_len ?m ?l) = Inr rows"
    and c: "consolidate ?m ?l ?e = Inr (clustered, get_grouped_results (filter (\<lambda>r. ev_id r \<noteq> None) clustered))"
    and t: "hit_len.truncate ` set clustered = set rows"
    and e: "\<forall>r \<in> set clustered. (ev_id r = None) = (reference_id r \<notin> fst ` set ?e)"
    by blast
  with f have "hit_len.truncate ` set clustered
      = {example_hit_len ''Q1'' ''R1'' 1 20 (Some 100), example_hit_len ''Q1'' ''R2'' 5 25 (Some 100)}"
    by simp
  moreover from e have "list_all (\<lambda>r. (ev_id r = None) = (reference_id r \<noteq> ''R2'')) clustered"
    by (simp add: list_all_iff)
  ultimately have 1: "\<exists>clustered.
         consolidate ?m ?l ?e
           = Inr (clustered, get_grouped_results (filter (\<lambda>r. ev_id r \<noteq> None) clustered))
       \<and> hit_len.truncate ` set clustered
           = {example_hit_len ''Q1'' ''R1'' 1 20 (Some 100), example_hit_len ''Q1'' ''R2'' 5 25 (Some 100)}
       \<and> list_all (\<lambda>r. (ev_id r = None) = (reference_id r \<noteq> ''R2'')) clustered"
    using c by blast
  from x h 1 show ?thesis by (intro conjI)
qed

text \<open>
  C3 as stated fails: \<open>R3\<close> has no length and \<open>R2\<close> has no event; the pipeline
  returns both tables, without \<open>R3\<close> in either and with \<open>R2\<close> in the table of the
  clustered hits only.
\<close>

theorem missing_mapping_silent:
  "map_sum id (\<lambda>(clustered, summary).
       (map (\<lambda>r. (reference_id r, total_len r, ev_id r, aln_id r)) clustered, summary))
     (consolidate
        [example_hit ''Q1'' ''R1'' 1 20, example_hit ''Q1'' ''R2'' 5 25, example_hit ''Q1'' ''R3'' 5 25]
        [(''R1'', 100), (''R2'', 100)] [(''R1'', ''E1'')])
     = Inr ([(''R1'', Some 100, Some ''E1'', Some 0), (''R2'', Some 100, None, Some 0)],
            [\<lparr>grp_ev_id = ''E1'', mirna = ''Q1'', max_score = 150, count = 1, grp_cross_boundary = 0\<rparr>])"
  by code_simp

section \<open>Splitting the sequence file\<close>

lemma split_loop_body:
  assumes "list_all (\<lambda>x. \<not> startswith_gt x) pre" and "k < length fs"
  shows "split_loop n \<lparr>tmp_f = Some k, tmp_files_iter = j, tmp_files = fs\<rparr> (pre @ rest)
       = split_loop n \<lparr>tmp_f = Some k, tmp_files_iter = j, tmp_files = fs[k := fs ! k @ pre]\<rparr> rest"
  using assms
proof (induction pre arbitrary: fs)
  case Nil
  then show ?case by simp
next
  case (Cons l pre)
  from Cons.prems have nh: "\<not> startswith_gt l" and pre: "list_all (\<lambda>x. \<not> startswith_gt x) pre"
    by simp_all
  let ?fs = "fs[k := fs ! k @ [l]]"
  have len: "k < length ?fs" using Cons.prems(2) by simp
  have "split_loop n \<lparr>tmp_f = Some k, tmp_files_iter = j, tmp_files = fs\<rparr> ((l # pre) @ rest)
      = split_loop n \<lparr>tmp_f = Some k, tmp_files_iter = j, tmp_files = ?fs\<rparr> (pre @ rest)"
    using nh by (simp add: write_line_def)
  also have "\<dots> = split_loop n \<lparr>tmp_f = Some k, tmp_files_iter = j, tmp_files = ?fs[k := ?fs ! k @ pre]\<rparr> rest"
    by (rule Cons.IH [OF pre len])
  also have "?fs[k := ?fs ! k @ pre] = fs[k := fs ! k @ l # pre]"
    using Cons.prems(2) by simp
  finally show ?case .
qed

lemma split_loop_record:
  assumes "is_record r" and "0 < n" and "j < length fs"
  shows "split_loop n \<lparr>tmp_f = t, tmp_files_iter = j, tmp_files = fs\<rparr> (r @ rest)
       = split_loop n \<lparr>tmp_f = Some j, tmp_files_iter = (j + 1) mod n, tmp_files = fs[j := fs ! j @ r]\<rparr> rest"
proof -
  from assms(1) obtain l ls where r: "r = l # ls" and h: "startswith_gt l"
    and body: "list_all (\<lambda>x. \<not> startswith_gt x) ls"
    by (cases r) (auto simp: is_record_def)
  let ?fs = "fs[j := fs ! j @ [l]]"
  have len: "j < length ?fs" using assms(3) by simp
  have "split_loop n \<lparr>tmp_f = t, tmp_files_iter = j, tmp_files = fs\<rparr> (r @ rest)
      = split_loop n \<lparr>tmp_f = Some j, tmp_files_iter = (j + 1) mod n, tmp_files = ?fs\<rparr> (ls @ rest)"
    using h assms(2) by (simp add: r write_line_def)
  also have "\<dots> = split_loop n \<lparr>tmp_f = Some j, tmp_files_iter = (j + 1) mod n,
                        tmp_files = ?fs[j := ?fs ! j @ ls]\<rparr> rest"
    by (rule split_loop_body [OF body len])
  also have "?fs[j := ?fs ! j @ ls] = fs[j := fs ! j @ r]"
    using assms(3) by (simp add: r)
  finally show ?thesis .
qed

lemma split_loop_records:
  assumes "0 < n" and "list_all is_record rs" and "j < n" and "length fs = n"
  shows "\<exists>st. split_loop n \<lparr>tmp_f = t, tmp_files_iter = j, tmp_files = fs\<rparr> (concat rs) = Inr st
            \<and> tmp_files st = deal n j fs rs"
  using assms(2-)
proof (induction rs arbitrary: t j fs)
  case Nil
  then show ?case by simp
next
  case (Cons r rs)
  from Cons.prems have r: "is_record r" and rs: "list_all is_record rs" by simp_all
  have j: "j < length fs" using Cons.prems by simp
  have j': "(j + 1) mod n < n" using assms(1) by simp
  have len: "length (fs[j := fs ! j @ r]) = n" using Cons.prems by simp
  from Cons.IH [OF rs j' len, of "Some j"] split_loop_record [OF r assms(1) j, of t "concat rs"]
  show ?case by simp
qed

lemma length_deal: "length (deal n j fs rs) = length fs"
  by (induction rs arbitrary: j fs) simp_all

lemma filter_upt_Suc:
  "filter P [0 ..< Suc m] = (if P 0 then [0] else []) @ map Suc (filter (\<lambda>i. P (Suc i)) [0 ..< m])"
proof -
  have "[0 ..< Suc m] = 0 # map Suc [0 ..< m]"
    by (simp add: upt_conv_Cons map_Suc_upt del: upt_Suc)
  then show ?thesis by (simp add: filter_map comp_def del: upt_Suc)
qed

lemma deal_nth:
  assumes "0 < n" and "j < n" and "length fs = n" and "p < n"
  shows "deal n j fs rs ! p
       = fs ! p @ concat (map (\<lambda>i. rs ! i) (filter (\<lambda>i. (j + i) mod n = p) [0 ..< length rs]))"
  using assms(2-)
proof (induction rs arbitrary: j fs)
  case Nil
  then show ?case by simp
next
  case (Cons r rs)
  have j': "(j + 1) mod n < n" using assms(1) by simp
  have len: "length (fs[j := fs ! j @ r]) = n" using Cons.prems by simp
  have shift: "\<And>i. ((j + 1) mod n + i) mod n = (j + Suc i) mod n"
    by (simp add: mod_add_left_eq)
  have "deal n j fs (r # rs) ! p = deal n ((j + 1) mod n) (fs[j := fs ! j @ r]) rs ! p"
    by simp
  also have "\<dots> = (fs[j := fs ! j @ r]) ! p
        @ concat (map (\<lambda>i. rs ! i) (filter (\<lambda>i. (j + Suc i) mod n = p) [0 ..< length rs]))"
    using Cons.IH [OF j' len Cons.prems(3)] by (simp only: shift)
  also have "\<dots> = fs ! p
        @ concat (map (\<lambda>i. (r # rs) ! i) (filter (\<lambda>i. (j + i) mod n = p) [0 ..< length (r # rs)]))"
  proof (cases "j = p")
    case True
    with Cons.prems show ?thesis
      by (simp add: filter_upt_Suc comp_def del: upt_Suc)
  next
    case False
    with Cons.prems show ?thesis
      by (simp add: filter_upt_Suc comp_def del: upt_Suc)
  qed
  finally show ?case .
qed

lemma concat_records: "concat (records ls) = ls"
  by (induction ls rule: records.induct) simp_all

lemma records_are_records:
  "ls = [] \<or> startswith_gt (hd ls) \<Longrightarrow> list_all is_record (records ls)"
proof (induction ls rule: records.induct)
  case 1
  then show ?case by simp
next
  case (2 l ls)
  let ?rest = "dropWhile (\<lambda>x. \<not> startswith_gt x) ls"
  have "?rest = [] \<or> startswith_gt (hd ?rest)"
    using hd_dropWhile [of "\<lambda>x. \<not> startswith_gt x" ls] by auto
  then have "list_all is_record (records ?rest)" by (rule "2.IH")
  moreover have "is_record (l # takeWhile (\<lambda>x. \<not> startswith_gt x) ls)"
    using "2.prems" by (auto simp: is_record_def list_all_iff dest: set_takeWhileD)
  ultimately show ?case by simp
qed

lemma split_file_records:
  assumes "0 < num" and "seq_file = [] \<or> startswith_gt (hd seq_file)"
  shows "split_file seq_file num
       = Inr (map (\<lambda>k. concat (map (\<lambda>i. records seq_file ! i)
                                 (filter (\<lambda>i. i mod nat num = k) [0 ..< length (records seq_file)])))
                [0 ..< nat num])"
proof -
  let ?n = "nat num"
  let ?rs = "records seq_file"
  have n: "0 < ?n" using assms(1) by simp
  have len: "length (replicate ?n ([]::string list)) = ?n" by simp
  from split_loop_records [OF n records_are_records [OF assms(2)] n len, of None]
  obtain st where st: "split_loop ?n \<lparr>tmp_f = None, tmp_files_iter = 0, tmp_files = replicate ?n []\<rparr>
      (concat ?rs) = Inr st"
    and fs: "tmp_files st = deal ?n 0 (replicate ?n []) ?rs"
    by blast
  have "deal ?n 0 (replicate ?n []) ?rs
      = map (\<lambda>k. concat (map (\<lambda>i. ?rs ! i) (filter (\<lambda>i. i mod ?n = k) [0 ..< length ?rs]))) [0 ..< ?n]"
  proof (rule nth_equalityI)
    show "length (deal ?n 0 (replicate ?n []) ?rs)
        = length (map (\<lambda>k. concat (map (\<lambda>i. ?rs ! i) (filter (\<lambda>i. i mod ?n = k) [0 ..< length ?rs]))) [0 ..< ?n])"
      by (simp add: length_deal)
  next
    fix p assume "p < length (deal ?n 0 (replicate ?n []) ?rs)"
    then have p: "p < ?n" by (simp add: length_deal)
    from deal_nth [OF n n len p, of ?rs] p
    show "deal ?n 0 (replicate ?n []) ?rs ! p
        = map (\<lambda>k. concat (map (\<lambda>i. ?rs ! i) (filter (\<lambda>i. i mod ?n = k) [0 ..< length ?rs]))) [0 ..< ?n] ! p"
      by simp
  qed
  with st fs show ?thesis
    by (simp add: split_file_def concat_records)
qed

text \<open>
  Outside the sequence files: a line before the first header is written with \<^verbatim>\<open>tmp_f\<close>
  unbound, and without partitions the cycle has no next file.
\<close>

lemma split_file_unbound:
  assumes "seq_file \<noteq> []" and "\<not> startswith_gt (hd seq_file)"
  shows "split_file seq_file num = Inl UnboundLocalError"
  using assms by (cases seq_file) (simp_all add: split_file_def)

lemma split_file_no_partition:
  assumes "seq_file \<noteq> []" and "startswith_gt (hd seq_file)" and "num \<le> 0"
  shows "split_file seq_file num = Inl RuntimeError"
  using assms by (cases seq_file) (simp_all add: split_file_def)

text \<open>
  C9. For a number of partitions \<open>num\<close> of at least 1 and a sequence file (a file of
  records: it is empty or starts with a header line), \<^verbatim>\<open>_split_file\<close> writes record
  \<open>i\<close> (from 0) to partition \<open>i mod num\<close>: partition \<open>k\<close> holds the records \<open>i\<close>
  with \<open>i mod num = k\<close>, in the order of the file, and nothing else. The partitions are
  a function of the lines of the file and of \<open>num\<close> alone (the random name of the
  directory is no argument of \<open>split_file\<close>), so two runs give the same partitions.
\<close>

theorem split_file_round_robin:
  "(seq_file = [] \<or> startswith_gt (hd seq_file)) \<and> 0 < num \<longrightarrow>
       concat (records seq_file) = seq_file
     \<and> list_all is_record (records seq_file)
     \<and> split_file seq_file num
         = Inr (map (\<lambda>k. concat (map (\<lambda>i. records seq_file ! i)
                                   (filter (\<lambda>i. i mod nat num = k) [0 ..< length (records seq_file)])))
                  [0 ..< nat num])"
  using concat_records [of seq_file] records_are_records [of seq_file]
    split_file_records [of num seq_file]
  by blast

text \<open>
  Four records dealt to three partitions (the lines are written without their newline).
\<close>

theorem split_file_round_robin_witness:
  "startswith_gt (hd [''>a'', ''ACGU'', ''>b'', ''GG'', ''UU'', ''>c'', ''UU'', ''>d'', ''A''])
   \<and> records [''>a'', ''ACGU'', ''>b'', ''GG'', ''UU'', ''>c'', ''UU'', ''>d'', ''A'']
       = [[''>a'', ''ACGU''], [''>b'', ''GG'', ''UU''], [''>c'', ''UU''], [''>d'', ''A'']]
   \<and> split_file [''>a'', ''ACGU'', ''>b'', ''GG'', ''UU'', ''>c'', ''UU'', ''>d'', ''A''] 3
       = Inr [[''>a'', ''ACGU'', ''>d'', ''A''], [''>b'', ''GG'', ''UU''], [''>c'', ''UU'']]"
proof -
  let ?seq = "[''>a'', ''ACGU'', ''>b'', ''GG'', ''UU'', ''>c'', ''UU'', ''>d'', ''A'']"
  have h: "startswith_gt (hd ?seq)" by (simp add: startswith_gt_def)
  have r: "records ?seq = [[''>a'', ''ACGU''], [''>b'', ''GG'', ''UU''], [''>c'', ''UU''], [''>d'', ''A'']]"
    by (simp add: startswith_gt_def)
  from split_file_round_robin [of ?seq 3] h
  have "split_file ?seq 3
         = Inr (map (\<lambda>k. concat (map (\<lambda>i. records ?seq ! i)
                                   (filter (\<lambda>i. i mod nat 3 = k) [0 ..< length (records ?seq)])))
                  [0 ..< nat 3])"
    by simp
  also have "\<dots> = Inr [[''>a'', ''ACGU'', ''>d'', ''A''], [''>b'', ''GG'', ''UU''], [''>c'', ''UU'']]"
    unfolding r by (simp add: upt_rec)
  finally show ?thesis using h r by simp
qed

section \<open>The public interface of run\<close>

text \<open>
  C10. With \<^verbatim>\<open>num_proc\<close> at most 0, \<^verbatim>\<open>run\<close> takes neither branch: it returns
  \<^verbatim>\<open>None\<close>, starts no process and makes no directory, and raises nothing. With
  \<^verbatim>\<open>num_proc = 1\<close> it returns the standard output of the one process. Whenever
  \<^verbatim>\<open>run\<close> returns, its value is a text exactly when \<^verbatim>\<open>num_proc\<close> is at least 1.
\<close>

theorem run_num_proc:
  "(num_proc \<le> 0 \<longrightarrow>
      run aligner rand_id self seq_file seq_lines num_proc
        = Inr \<lparr>returned = None, started = [], made_dirs = []\<rparr>)
   \<and> (num_proc = 1 \<longrightarrow>
      run aligner rand_id self seq_file seq_lines num_proc
        = Inr \<lparr>returned = Some (aligner (generate_cmd self seq_file None) seq_lines),
               started = [generate_cmd self seq_file None], made_dirs = []\<rparr>)
   \<and> (\<forall>r. run aligner rand_id self seq_file seq_lines num_proc = Inr r \<longrightarrow>
          (returned r \<noteq> None) = (1 \<le> num_proc))"
proof (intro conjI impI allI)
  assume "num_proc \<le> 0"
  then show "run aligner rand_id self seq_file seq_lines num_proc
        = Inr \<lparr>returned = None, started = [], made_dirs = []\<rparr>"
    by (simp add: run_def)
next
  assume "num_proc = 1"
  then show "run aligner rand_id self seq_file seq_lines num_proc
        = Inr \<lparr>returned = Some (aligner (generate_cmd self seq_file None) seq_lines),
               started = [generate_cmd self seq_file None], made_dirs = []\<rparr>"
    by (simp add: run_def Let_def)
next
  fix r assume r: "run aligner rand_id self seq_file seq_lines num_proc = Inr r"
  consider "num_proc \<le> 0" | "num_proc = 1" | "1 < num_proc" by linarith
  then show "(returned r \<noteq> None) = (1 \<le> num_proc)"
  proof cases
    case 1
    with r have "r = \<lparr>returned = None, started = [], made_dirs = []\<rparr>" by (simp add: run_def)
    with 1 show ?thesis by simp
  next
    case 2
    with r have "returned r = Some (aligner (generate_cmd self seq_file None) seq_lines)"
      by (auto simp: run_def Let_def)
    with 2 show ?thesis by simp
  next
    case 3
    then have np: "num_proc \<noteq> 1" "num_proc > 1" by simp_all
    show ?thesis
    proof (cases "split_file seq_lines num_proc")
      case (Inl e)
      with r np show ?thesis by (simp add: run_def Let_def)
    next
      case (Inr parts)
      with r np have "returned r \<noteq> None" by (auto simp: run_def Let_def)
      with 3 show ?thesis by simp
    qed
  qed
qed

text \<open>
  \<^verbatim>\<open>num_proc\<close> 0 and -3 return \<^verbatim>\<open>None\<close>; \<^verbatim>\<open>num_proc\<close> 1 returns the output of the aligner.
\<close>

theorem run_num_proc_witness:
  "run example_aligner ''00042'' example_miranda ''seq.fa'' [''>a'', ''ACGU''] 0
     = Inr \<lparr>returned = None, started = [], made_dirs = []\<rparr>
   \<and> run example_aligner ''00042'' example_miranda ''seq.fa'' [''>a'', ''ACGU''] (- 3)
     = Inr \<lparr>returned = None, started = [], made_dirs = []\<rparr>
   \<and> run example_aligner ''00042'' example_miranda ''seq.fa'' [''>a'', ''ACGU''] 1
     = Inr \<lparr>returned = Some (example_aligner [''miranda'', ''mir.fa'', ''seq.fa'', ''-quiet'', ''-keyval'']
                                 [''>a'', ''ACGU'']),
            started = [[''miranda'', ''mir.fa'', ''seq.fa'', ''-quiet'', ''-keyval'']],
            made_dirs = []\<rparr>"
proof -
  let ?seq = "[''>a'', ''ACGU'']"
  have a: "run example_aligner ''00042'' example_miranda ''seq.fa'' ?seq 0
     = Inr \<lparr>returned = None, started = [], made_dirs = []\<rparr>"
    using run_num_proc [of 0 example_aligner "''00042''" example_miranda "''seq.fa''" ?seq,
        THEN conjunct1]
    by simp
  have b: "run example_aligner ''00042'' example_miranda ''seq.fa'' ?seq (- 3)
     = Inr \<lparr>returned = None, started = [], made_dirs = []\<rparr>"
    using run_num_proc [of "- 3" example_aligner "''00042''" example_miranda "''seq.fa''" ?seq,
        THEN conjunct1]
    by simp
  have c: "run example_aligner ''00042'' example_miranda ''seq.fa'' ?seq 1
     = Inr \<lparr>returned = Some (example_aligner (generate_cmd example_miranda ''seq.fa'' None) ?seq),
            started = [generate_cmd example_miranda ''seq.fa'' None], made_dirs = []\<rparr>"
    using run_num_proc [of 1 example_aligner "''00042''" example_miranda "''seq.fa''" ?seq,
        THEN conjunct2, THEN conjunct1]
    by simp
  have "generate_cmd example_miranda ''seq.fa'' None
          = [''miranda'', ''mir.fa'', ''seq.fa'', ''-quiet'', ''-keyval'']"
    by (simp add: generate_cmd_def example_miranda_def)
  with a b c show ?thesis by simp
qed

section \<open>ResultParser\<close>



lemma split_on_not_Nil [simp]: "split_on c s \<noteq> []"
  by (induction s) (auto split: list.splits)

lemma split_on_Cons:
  "split_on c (x # xs) =
     (if x = c then [] # split_on c xs else (x # hd (split_on c xs)) # tl (split_on c xs))"
  by (cases "split_on c xs") simp_all

declare split_on.simps(2) [simp del]

lemma split_on_clean: "c \<notin> set s \<Longrightarrow> split_on c s = [s]"
  by (induction s) (auto simp: split_on_Cons)

lemma split_on_append: "c \<notin> set a \<Longrightarrow> split_on c (a @ c # b) = a # split_on c b"
  by (induction a) (auto simp: split_on_Cons)

lemma split_on_two: "c \<in> set s \<Longrightarrow> \<exists>k v ws. split_on c s = k # v # ws"
proof -
  assume "c \<in> set s"
  then obtain a b where s: "s = a @ c # b" and "c \<notin> set a"
    by (auto dest: split_list_first)
  then have "split_on c s = a # split_on c b" by (simp add: split_on_append)
  moreover obtain v ws where "split_on c b = v # ws"
    by (cases "split_on c b") simp_all
  ultimately show ?thesis by simp
qed

lemma hd_split_on: "hd (split_on c s) = takeWhile (\<lambda>x. x \<noteq> c) s"
  by (induction s) (auto simp: split_on_Cons)

lemma tl_split_on:
  "tl (split_on c s) = (case dropWhile (\<lambda>x. x \<noteq> c) s of [] \<Rightarrow> [] | x # r \<Rightarrow> split_on c r)"
  by (induction s) (auto simp: split_on_Cons)

lemma hit_info_no_newline: "NEWLINE \<notin> set hit_info"
  by (simp add: hit_info_def NEWLINE_def TAB_def)

lemma length_hit_info: "length hit_info = 11"
  by (simp add: hit_info_def)

lemma take_hit_info_line:
  assumes "take (length hit_info) s = hit_info"
  shows "takeWhile (\<lambda>x. x \<noteq> NEWLINE) s = hit_info @ takeWhile (\<lambda>x. x \<noteq> NEWLINE) (drop (length hit_info) s)"
    and "dropWhile (\<lambda>x. x \<noteq> NEWLINE) s = dropWhile (\<lambda>x. x \<noteq> NEWLINE) (drop (length hit_info) s)"
proof -
  have s: "s = hit_info @ drop (length hit_info) s"
    using assms by (metis append_take_drop_id)
  have all: "\<forall>x \<in> set hit_info. x \<noteq> NEWLINE" using hit_info_no_newline by auto
  show "takeWhile (\<lambda>x. x \<noteq> NEWLINE) s = hit_info @ takeWhile (\<lambda>x. x \<noteq> NEWLINE) (drop (length hit_info) s)"
    by (subst s) (simp add: takeWhile_append2 all)
  show "dropWhile (\<lambda>x. x \<noteq> NEWLINE) s = dropWhile (\<lambda>x. x \<noteq> NEWLINE) (drop (length hit_info) s)"
    by (subst s) (simp add: dropWhile_append2 all)
qed

lemma is_hit_info_prefix:
  assumes "is_hit_info (takeWhile P s)"
  shows "take (length hit_info) s = hit_info"
proof -
  from assms have t: "take (length hit_info) (takeWhile P s) = hit_info" by (simp add: is_hit_info_def)
  then have "length hit_info \<le> length (takeWhile P s)"
    by (metis length_take min.cobounded2 min.commute)
  then have "take (length hit_info) (takeWhile P s @ dropWhile P s)
      = take (length hit_info) (takeWhile P s)"
    by (simp del: takeWhile_dropWhile_id)
  then show ?thesis using t by simp
qed

lemma finditer_lines:
  "finditer bol s =
     hit_info_groups (if bol then split_on NEWLINE s else tl (split_on NEWLINE s))"
proof (induction bol s rule: finditer.induct)
  case (1 bol)
  then show ?case by (simp add: hit_info_groups_def is_hit_info_def hit_info_def)
next
  case (2 bol c cs)
  let ?s = "c # cs"
  let ?lines = "split_on NEWLINE ?s"
  have lines: "?lines = hd ?lines # tl ?lines" by simp
  show ?case
  proof (cases "bol \<and> take (length hit_info) ?s = hit_info")
    case True
    then have bol: bol and mark: "take (length hit_info) ?s = hit_info" by simp_all
    let ?body = "drop (length hit_info) ?s"
    let ?rest = "dropWhile (\<lambda>x. x \<noteq> NEWLINE) ?body"
    have hd: "hd ?lines = hit_info @ takeWhile (\<lambda>x. x \<noteq> NEWLINE) ?body"
      unfolding hd_split_on by (rule take_hit_info_line(1) [OF mark])
    have tl0: "tl ?lines = (case ?rest of [] \<Rightarrow> [] | x # r \<Rightarrow> split_on NEWLINE r)"
      by (simp only: tl_split_on take_hit_info_line(2) [OF mark])
    have tl: "tl ?lines = tl (split_on NEWLINE ?rest)"
    proof (cases ?rest)
      case Nil
      show ?thesis unfolding tl0 unfolding Nil by simp
    next
      case (Cons a r)
      with hd_dropWhile [of "\<lambda>x. x \<noteq> NEWLINE" ?body] have "a = NEWLINE" by auto
      show ?thesis unfolding tl0 unfolding Cons \<open>a = NEWLINE\<close> by (simp add: split_on_Cons)
    qed
    have "finditer bol ?s = takeWhile (\<lambda>x. x \<noteq> NEWLINE) ?body # finditer False ?rest"
      using True by simp
    also have "finditer False ?rest = hit_info_groups (tl (split_on NEWLINE ?rest))"
      using "2.IH"(1) [OF True] by simp
    also have "takeWhile (\<lambda>x. x \<noteq> NEWLINE) ?body # hit_info_groups (tl (split_on NEWLINE ?rest))
               = hit_info_groups (hd ?lines # tl ?lines)"
      unfolding hd tl by (simp add: hit_info_groups_def is_hit_info_def)
    finally show ?thesis using bol lines by simp
  next
    case False
    have step: "finditer bol ?s = finditer (c = NEWLINE) cs"
      by (subst finditer.simps(2)) (simp only: False if_False)
    have IH: "finditer (c = NEWLINE) cs
        = hit_info_groups (if c = NEWLINE then split_on NEWLINE cs else tl (split_on NEWLINE cs))"
      using "2.IH"(2) [OF False] .
    show ?thesis
    proof (cases "c = NEWLINE")
      case True
      then have "?lines = [] # split_on NEWLINE cs" by (simp add: split_on_Cons)
      moreover have "\<not> is_hit_info []" by (simp add: is_hit_info_def hit_info_def)
      ultimately show ?thesis using step IH True by (simp add: hit_info_groups_def)
    next
      case cn: False
      then have tl: "tl ?lines = tl (split_on NEWLINE cs)" by (simp add: split_on_Cons)
      show ?thesis
      proof (cases bol)
        case True
        with False have nm: "take (length hit_info) ?s \<noteq> hit_info" by simp
        have nh: "\<not> is_hit_info (hd ?lines)"
          unfolding hd_split_on using is_hit_info_prefix [of "\<lambda>x. x \<noteq> NEWLINE" ?s] nm by blast
        obtain h t where ht: "?lines = h # t" by (cases ?lines) simp_all
        with nh have "hit_info_groups ?lines = hit_info_groups (tl ?lines)"
          by (simp add: hit_info_groups_def)
        with step IH cn tl True show ?thesis by simp
      next
        case False
        with step IH cn tl show ?thesis by simp
      qed
    qed
  qed
qed

lemma parse_result_lines:
  "parse_result raw_result =
     generator (map (\<lambda>l. get_value (drop (length hit_info) l))
                  (filter is_hit_info (split_on NEWLINE raw_result)))"
  by (simp add: parse_result_def finditer_lines hit_info_groups_def comp_def)

lemma generator_rows:
  "\<forall>x \<in> set xs. f x = Inr (g x) \<Longrightarrow> generator (map f xs) = (map g xs, None)"
  by (induction xs) simp_all

text \<open>The generator is finished after its first exception.\<close>

lemma generator_raises: "generator (map Inr xs @ Inl e # steps) = (xs, Some e)"
  by (induction xs) simp_all




text \<open>A field without \<^verbatim>\<open>=\<close> raises IndexError; fields with \<^verbatim>\<open>=\<close> give their second piece.\<close>

lemma get_values_IndexError:
  "\<exists>kv \<in> set kvs. CHR ''='' \<notin> set kv \<Longrightarrow> get_values kvs = Inl IndexError"
proof (induction kvs)
  case Nil
  then show ?case by simp
next
  case (Cons kv kvs)
  show ?case
  proof (cases "CHR ''='' \<in> set kv")
    case True
    with Cons.prems have "\<exists>kv \<in> set kvs. CHR ''='' \<notin> set kv" by auto
    then have "get_values kvs = Inl IndexError" by (rule Cons.IH)
    moreover from split_on_two [OF True] obtain k v ws
      where "split_on (CHR ''='') kv = k # v # ws" by blast
    ultimately show ?thesis by simp
  next
    case False
    then show ?thesis by (simp add: split_on_clean)
  qed
qed

lemma get_values_Inr:
  "\<forall>kv \<in> set kvs. CHR ''='' \<in> set kv \<Longrightarrow>
   get_values kvs = Inr (map (\<lambda>kv. split_on (CHR ''='') kv ! 1) kvs)"
proof (induction kvs)
  case Nil
  then show ?case by simp
next
  case (Cons kv kvs)
  then have "CHR ''='' \<in> set kv" by simp
  from split_on_two [OF this] obtain k v ws
    where "split_on (CHR ''='') kv = k # v # ws" by blast
  with Cons show ?case by simp
qed























text \<open>
  The marker lines of the text, in their order, are what \<^verbatim>\<open>parse_result\<close> reads; when
  every field of every marker line has a \<^verbatim>\<open>=\<close> it yields a record for every marker
  line.
\<close>

lemma parse_result_fields:
  assumes "\<forall>l \<in> set (filter is_hit_info (split_on NEWLINE raw_result)).
             \<forall>kv \<in> set (split_on TAB (drop (length hit_info) l)). CHR ''='' \<in> set kv"
  shows "parse_result raw_result
       = (map (\<lambda>l. map (\<lambda>kv. split_on (CHR ''='') kv ! 1) (split_on TAB (drop (length hit_info) l)))
            (filter is_hit_info (split_on NEWLINE raw_result)), None)"
  unfolding parse_result_lines
proof (rule generator_rows, rule ballI)
  fix l assume "l \<in> set (filter is_hit_info (split_on NEWLINE raw_result))"
  with assms have "\<forall>kv \<in> set (split_on TAB (drop (length hit_info) l)). CHR ''='' \<in> set kv"
    by blast
  then show "get_value (drop (length hit_info) l)
      = Inr (map (\<lambda>kv. split_on (CHR ''='') kv ! 1) (split_on TAB (drop (length hit_info) l)))"
    unfolding get_value_def by (rule get_values_Inr)
qed




















end
